theory Spec2Isabelle
  imports Complex_Main "HOL-Library.Product_Lexorder" "HOL-Library.Multiset"
begin

section \<open>Values of type float64\<close>

text \<open>
  A \<open>float64\<close> is a finite number, one of the two infinities, or NaN. A finite result
  overflows to an infinity as in IEEE 754 round-to-nearest, when its magnitude reaches
  \<open>2^1024 - 2^970\<close>; below that it is exact: rounding and underflow are not modelled, and
  \<open>Fin 0\<close> stands for both signed zeros. The special values follow IEEE 754 as Go implements
  it: a finite non-zero number divided by zero is an infinity, \<open>0 / 0\<close> and \<open>Inf - Inf\<close> are
  NaN, and NaN propagates. Every divisor of the program (\<open>float64(len(data))\<close>,
  \<open>float64(len(data)-1)\<close>, \<open>2.0\<close>, \<open>math.Sqrt(float64(len(data)))\<close>) is never the negative
  zero, so a zero divisor is taken as \<open>+0\<close>.
\<close>

datatype float64 = Fin real | PInf | NInf | NaN

text \<open>
  \<open>math.MaxFloat64\<close> and the least magnitude that rounds to an infinity. A number \<open>Fin a\<close>
  with \<open>a\<close> of that magnitude or more is the value of no float64; an operation with such
  an operand is left exact.
\<close>

definition MaxFloat64 :: real where
  "MaxFloat64 = 2 ^ 1024 - 2 ^ 971"

definition overflow_at :: real where
  "overflow_at = 2 ^ 1024 - 2 ^ 970"

definition in_range :: "real \<Rightarrow> bool" where
  "in_range a = (\<bar>a\<bar> < overflow_at)"

definition finite_result :: "real \<Rightarrow> real \<Rightarrow> real \<Rightarrow> float64" where
  "finite_result a b x =
     (if in_range a \<and> in_range b
      then (if overflow_at \<le> x then PInf else if x \<le> - overflow_at then NInf else Fin x)
      else Fin x)"

fun fneg :: "float64 \<Rightarrow> float64" where
  "fneg (Fin a) = Fin (- a)"
| "fneg PInf = NInf"
| "fneg NInf = PInf"
| "fneg NaN = NaN"

fun fadd :: "float64 \<Rightarrow> float64 \<Rightarrow> float64" where
  "fadd (Fin a) (Fin b) = finite_result a b (a + b)"
| "fadd NaN y = NaN"
| "fadd x NaN = NaN"
| "fadd PInf NInf = NaN"
| "fadd NInf PInf = NaN"
| "fadd PInf y = PInf"
| "fadd x PInf = PInf"
| "fadd NInf y = NInf"
| "fadd x NInf = NInf"

definition fsub :: "float64 \<Rightarrow> float64 \<Rightarrow> float64" where
  "fsub x y = fadd x (fneg y)"

fun fmul :: "float64 \<Rightarrow> float64 \<Rightarrow> float64" where
  "fmul (Fin a) (Fin b) = finite_result a b (a * b)"
| "fmul NaN y = NaN"
| "fmul x NaN = NaN"
| "fmul (Fin a) PInf = (if a = 0 then NaN else if 0 < a then PInf else NInf)"
| "fmul (Fin a) NInf = (if a = 0 then NaN else if 0 < a then NInf else PInf)"
| "fmul PInf (Fin b) = (if b = 0 then NaN else if 0 < b then PInf else NInf)"
| "fmul NInf (Fin b) = (if b = 0 then NaN else if 0 < b then NInf else PInf)"
| "fmul PInf PInf = PInf"
| "fmul NInf NInf = PInf"
| "fmul PInf NInf = NInf"
| "fmul NInf PInf = NInf"

fun fdiv :: "float64 \<Rightarrow> float64 \<Rightarrow> float64" where
  "fdiv (Fin a) (Fin b) =
     (if b \<noteq> 0 then finite_result a b (a / b)
      else if a = 0 then NaN else if 0 < a then PInf else NInf)"
| "fdiv NaN y = NaN"
| "fdiv x NaN = NaN"
| "fdiv (Fin a) PInf = Fin 0"
| "fdiv (Fin a) NInf = Fin 0"
| "fdiv PInf (Fin b) = (if 0 \<le> b then PInf else NInf)"
| "fdiv NInf (Fin b) = (if 0 \<le> b then NInf else PInf)"
| "fdiv PInf PInf = NaN"
| "fdiv PInf NInf = NaN"
| "fdiv NInf PInf = NaN"
| "fdiv NInf NInf = NaN"

text \<open>\<open>math.Sqrt\<close>: NaN below zero and at NaN, \<open>+Inf\<close> at \<open>+Inf\<close>.\<close>

fun fsqrt :: "float64 \<Rightarrow> float64" where
  "fsqrt (Fin a) = (if a < 0 then NaN else Fin (sqrt a))"
| "fsqrt PInf = PInf"
| "fsqrt NInf = NaN"
| "fsqrt NaN = NaN"

text \<open>\<open>math.Pow(x, 2)\<close>: the square, \<open>+Inf\<close> at both infinities, NaN at NaN.\<close>

fun fpow2 :: "float64 \<Rightarrow> float64" where
  "fpow2 (Fin a) = finite_result a a (a ^ 2)"
| "fpow2 PInf = PInf"
| "fpow2 NInf = PInf"
| "fpow2 NaN = NaN"

text \<open>The conversion \<open>float64(n)\<close> of an \<open>int\<close>.\<close>

definition float64_of_int :: "int \<Rightarrow> float64" where
  "float64_of_int n = Fin (of_int n)"

text \<open>
  The order of \<open>sort.Float64s\<close>: increasing, NaN before every other value.
\<close>

fun fkey :: "float64 \<Rightarrow> nat \<times> real" where
  "fkey NaN = (0, 0)"
| "fkey NInf = (1, 0)"
| "fkey (Fin a) = (2, a)"
| "fkey PInf = (3, 0)"

definition Float64s :: "float64 list \<Rightarrow> float64 list" where
  "Float64s xs = sort_key fkey xs"

section \<open>The estimators that only read their argument\<close>

text \<open>\<open>len(data)\<close> as an \<open>int\<close>.\<close>

definition len :: "'a list \<Rightarrow> int" where
  "len xs = int (length xs)"

text \<open>\<open>mean\<close>: the loop adds the elements to \<open>sum\<close> from left to right, starting at \<open>0.0\<close>.\<close>

definition mean :: "float64 list \<Rightarrow> float64" where
  "mean data = fdiv (foldl (\<lambda>sum v. fadd sum v) (Fin 0) data) (float64_of_int (len data))"

text \<open>\<open>standardError\<close>: the loop accumulates the squared deviations in \<open>variance\<close>.\<close>

definition sum_sq_dev :: "float64 \<Rightarrow> float64 list \<Rightarrow> float64" where
  "sum_sq_dev m data = foldl (\<lambda>variance v. fadd variance (fpow2 (fsub v m))) (Fin 0) data"

definition standardError :: "float64 list \<Rightarrow> float64" where
  "standardError data =
     (let m = mean data;
          variance = sum_sq_dev m data;
          stdDev = fsqrt (fdiv variance (float64_of_int (len data - 1)))
      in fdiv stdDev (fsqrt (float64_of_int (len data))))"

section \<open>Panics, slices and the random source\<close>

text \<open>
  The run-time panics the program can raise: an index out of range, \<open>make\<close> with a
  length that is negative or too large, and \<open>rand.Intn\<close> with an argument that is not
  positive.
\<close>

datatype panic = IndexOutOfRange | MakesliceLenOutOfRange | IntnInvalidArgument

definition bindR :: "panic + 'a \<Rightarrow> ('a \<Rightarrow> panic + 'b) \<Rightarrow> panic + 'b" where
  "bindR m f = (case m of Inl e \<Rightarrow> Inl e | Inr x \<Rightarrow> f x)"

text \<open>
  A slice is a reference to a mutable sequence in the store; the program never reslices.
  The references below \<open>nxt\<close> are in use and \<open>make\<close> takes the next one. The field
  \<open>rng\<close> is the state of the process-wide source of \<open>math/rand\<close>. The field \<open>maxlen\<close> is
  the greatest length of a slice that the run-time system gives; it depends on the platform
  and on the memory of the machine.
\<close>

type_synonym addr = nat

record 'g world =
  heap :: "addr \<Rightarrow> float64 list"
  nxt :: addr
  rng :: 'g
  maxlen :: nat

text \<open>
  The functions of \<open>math/rand\<close> that the program calls, as parameters: the state
  that \<open>rand.Seed\<close> leaves, from the seed and the state before, and the value and next
  state of \<open>rand.NormFloat64\<close> and of \<open>rand.Intn\<close> at a positive argument. Up to Go 1.23
  \<open>rand.Seed\<close> leaves a state that depends on the seed only; from Go 1.24 it leaves the state
  as it was, unless \<open>GODEBUG=randseednop=0\<close> is set.
\<close>

record 'g rand_lib =
  Seed :: "int \<Rightarrow> 'g \<Rightarrow> 'g"
  NormFloat64 :: "'g \<Rightarrow> real \<times> 'g"
  Intn_pos :: "int \<Rightarrow> 'g \<Rightarrow> int \<times> 'g"

definition Intn :: "'g rand_lib \<Rightarrow> int \<Rightarrow> 'g world \<Rightarrow> panic + (int \<times> 'g world)" where
  "Intn R n w =
     (if n \<le> 0 then Inl IntnInvalidArgument
      else let (k, g) = Intn_pos R n (rng w) in Inr (k, w\<lparr>rng := g\<rparr>))"

text \<open>
  \<open>make([]float64, n)\<close>: a new slice of \<open>n\<close> zeros, when \<open>n\<close> is a length the run-time system
  gives.
\<close>

definition make :: "int \<Rightarrow> 'g world \<Rightarrow> panic + (addr \<times> 'g world)" where
  "make n w =
     (if n < 0 \<or> int (maxlen w) < n then Inl MakesliceLenOutOfRange
      else Inr (nxt w, w\<lparr>heap := (heap w)(nxt w := replicate (nat n) (Fin 0)),
                          nxt := Suc (nxt w)\<rparr>))"

text \<open>The indexed read \<open>xs[i]\<close> and the indexed write \<open>a[i] = v\<close>, both checked.\<close>

definition index :: "float64 list \<Rightarrow> int \<Rightarrow> panic + float64" where
  "index xs i = (if 0 \<le> i \<and> i < len xs then Inr (xs ! nat i) else Inl IndexOutOfRange)"

definition assign :: "addr \<Rightarrow> int \<Rightarrow> float64 \<Rightarrow> 'g world \<Rightarrow> panic + 'g world" where
  "assign a i v w =
     (if 0 \<le> i \<and> i < len (heap w a)
      then Inr (w\<lparr>heap := (heap w)(a := (heap w a)[nat i := v])\<rparr>)
      else Inl IndexOutOfRange)"

text \<open>The loop \<open>for i := lo; i < n; i++ { body }\<close>, whose body assigns neither \<open>i\<close> nor \<open>n\<close>.\<close>

function for_loop :: "int \<Rightarrow> int \<Rightarrow> (int \<Rightarrow> 's \<Rightarrow> panic + 's) \<Rightarrow> 's \<Rightarrow> panic + 's" where
  "for_loop i n body s =
     (if i < n
      then (case body i s of Inl e \<Rightarrow> Inl e | Inr s' \<Rightarrow> for_loop (i + 1) n body s')
      else Inr s)"
  by pat_completeness auto
termination
  by (relation "measure (\<lambda>(i, n, body, s). nat (n - i))") auto

declare for_loop.simps [simp del]

section \<open>The program\<close>

text \<open>The body of the loop of \<open>generatePopulation\<close>, at the index \<open>i\<close>.\<close>

definition generate_body ::
  "'g rand_lib \<Rightarrow> addr \<Rightarrow> float64 \<Rightarrow> float64 \<Rightarrow> int \<Rightarrow> 'g world \<Rightarrow> panic + 'g world" where
  "generate_body R population mu stddev i w =
     (let (x, g) = NormFloat64 R (rng w)
      in assign population i (fadd (fmul (Fin x) stddev) mu) (w\<lparr>rng := g\<rparr>))"

definition generatePopulation ::
  "'g rand_lib \<Rightarrow> int \<Rightarrow> float64 \<Rightarrow> float64 \<Rightarrow> 'g world \<Rightarrow> panic + (addr \<times> 'g world)" where
  "generatePopulation R sz mu stddev w =
     bindR (make sz w) (\<lambda>(population, w1).
       let seed = 42;
           w2 = w1\<lparr>rng := Seed R seed (rng w1)\<rparr>
       in bindR (for_loop 0 sz (generate_body R population mu stddev) w2)
            (\<lambda>w3. Inr (population, w3)))"

text \<open>
  \<open>median\<close> sorts the slice it is given in place and reads the middle of it. On \<open>n \<ge> 0\<close>
  the quotient and remainder of Go agree with \<open>div\<close> and \<open>mod\<close>.
\<close>

definition median :: "addr \<Rightarrow> 'g world \<Rightarrow> panic + (float64 \<times> 'g world)" where
  "median data w =
     (let w1 = w\<lparr>heap := (heap w)(data := Float64s (heap w data))\<rparr>;
          xs = heap w1 data;
          n = len xs
      in if n mod 2 = 0
         then bindR (index xs (n div 2 - 1)) (\<lambda>a.
              bindR (index xs (n div 2)) (\<lambda>b.
              Inr (fdiv (fadd a b) (Fin 2), w1)))
         else bindR (index xs (n div 2)) (\<lambda>a. Inr (a, w1)))"

text \<open>
  The inner loop body of \<open>bootstrap\<close> and of \<open>centralLimitTheorem\<close>:
  \<open>sample[j] = population[rand.Intn(len(population))]\<close>.
\<close>

definition draw_into :: "'g rand_lib \<Rightarrow> addr \<Rightarrow> addr \<Rightarrow> int \<Rightarrow> 'g world \<Rightarrow> panic + 'g world" where
  "draw_into R sample population j w =
     bindR (Intn R (len (heap w population)) w) (\<lambda>(k, w1).
     bindR (index (heap w1 population) k) (\<lambda>v.
     assign sample j v w1))"

text \<open>The body of the loop of \<open>bootstrap\<close>, at the index \<open>i\<close>.\<close>

definition bootstrap_body ::
  "'g rand_lib \<Rightarrow> addr \<Rightarrow> int \<Rightarrow> addr \<Rightarrow> addr \<Rightarrow> int \<Rightarrow> 'g world \<Rightarrow> panic + 'g world" where
  "bootstrap_body R population sampleSize means medians i w =
     bindR (make sampleSize w) (\<lambda>(sample, wa).
     bindR (for_loop 0 sampleSize (draw_into R sample population) wa) (\<lambda>wb.
     bindR (assign means i (mean (heap wb sample)) wb) (\<lambda>wc.
     bindR (median sample wc) (\<lambda>(m, wd).
     assign medians i m wd))))"

definition bootstrap ::
  "'g rand_lib \<Rightarrow> addr \<Rightarrow> int \<Rightarrow> int \<Rightarrow> 'g world \<Rightarrow> panic + ((float64 \<times> float64) \<times> 'g world)" where
  "bootstrap R population bootstrapSamples sampleSize w =
     bindR (make bootstrapSamples w) (\<lambda>(means, w1).
     bindR (make bootstrapSamples w1) (\<lambda>(medians, w2).
     bindR (for_loop 0 bootstrapSamples
              (bootstrap_body R population sampleSize means medians) w2) (\<lambda>w3.
     let seMean = standardError (heap w3 means);
         seMedian = standardError (heap w3 medians)
     in Inr ((seMean, seMedian), w3))))"

text \<open>The body of the loop of \<open>centralLimitTheorem\<close>, at the index \<open>i\<close>.\<close>

definition clt_body ::
  "'g rand_lib \<Rightarrow> addr \<Rightarrow> int \<Rightarrow> addr \<Rightarrow> int \<Rightarrow> 'g world \<Rightarrow> panic + 'g world" where
  "clt_body R population sampleSize sampleMeans i w =
     bindR (make sampleSize w) (\<lambda>(sample, wa).
     bindR (for_loop 0 sampleSize (draw_into R sample population) wa) (\<lambda>wb.
     assign sampleMeans i (mean (heap wb sample)) wb))"

definition centralLimitTheorem ::
  "'g rand_lib \<Rightarrow> addr \<Rightarrow> int \<Rightarrow> int \<Rightarrow> 'g world \<Rightarrow> panic + (float64 \<times> 'g world)" where
  "centralLimitTheorem R population sampleSize numSamples w =
     bindR (make numSamples w) (\<lambda>(sampleMeans, w1).
     bindR (for_loop 0 numSamples (clt_body R population sampleSize sampleMeans) w1) (\<lambda>w2.
     Inr (standardError (heap w2 sampleMeans), w2)))"

section \<open>The specification's resampler and median\<close>

text \<open>
  The median in the specification's words: the middle element of the sorted sequence at
  an odd length, the average of the two middle elements at an even length. A sequence is
  sorted when it is increasing in the order of \<open>sort.Float64s\<close>.
\<close>

definition sorted_f64 :: "float64 list \<Rightarrow> bool" where
  "sorted_f64 xs = sorted (map fkey xs)"

definition median_of :: "float64 list \<Rightarrow> float64" where
  "median_of xs =
     (let s = Float64s xs; n = length s
      in if odd n then s ! (n div 2)
         else fdiv (fadd (s ! (n div 2 - 1)) (s ! (n div 2))) (Fin 2))"

text \<open>
  The specification's resampler: a sample of \<open>m\<close> elements of the source, each at an index
  that \<open>rand.Intn\<close> gives, and \<open>k\<close> such samples in a row from one random source.
\<close>

fun draws :: "'g rand_lib \<Rightarrow> float64 list \<Rightarrow> nat \<Rightarrow> 'g \<Rightarrow> panic + (float64 list \<times> 'g)" where
  "draws R pop 0 g = Inr ([], g)"
| "draws R pop (Suc m) g =
     (if len pop \<le> 0 then Inl IntnInvalidArgument
      else let (k, g1) = Intn_pos R (len pop) g
           in bindR (index pop k) (\<lambda>v.
              bindR (draws R pop m g1) (\<lambda>(vs, g2). Inr (v # vs, g2))))"

fun draw_samples ::
  "'g rand_lib \<Rightarrow> float64 list \<Rightarrow> nat \<Rightarrow> nat \<Rightarrow> 'g \<Rightarrow> panic + (float64 list list \<times> 'g)" where
  "draw_samples R pop m 0 g = Inr ([], g)"
| "draw_samples R pop m (Suc k) g =
     bindR (draws R pop m g) (\<lambda>(s, g1).
     bindR (draw_samples R pop m k g1) (\<lambda>(ss, g2). Inr (s # ss, g2)))"

text \<open>
  The specification's generator: \<open>n\<close> values, each a draw of \<open>rand.NormFloat64\<close> scaled by
  the standard deviation and shifted by the mean.
\<close>

fun normals :: "'g rand_lib \<Rightarrow> float64 \<Rightarrow> float64 \<Rightarrow> nat \<Rightarrow> 'g \<Rightarrow> float64 list \<times> 'g" where
  "normals R mu stddev 0 g = ([], g)"
| "normals R mu stddev (Suc n) g =
     (let (x, g1) = NormFloat64 R g;
          (vs, g2) = normals R mu stddev n g1
      in (fadd (fmul (Fin x) stddev) mu # vs, g2))"

text \<open>
  A sequence of calls of \<open>centralLimitTheorem\<close> and \<open>bootstrap\<close> on one population, as \<open>main\<close>
  makes them, each on the store the previous one left.
\<close>

datatype call = CentralLimitTheorem int int | Bootstrap int int

fun run_calls :: "'g rand_lib \<Rightarrow> addr \<Rightarrow> call list \<Rightarrow> 'g world \<Rightarrow> panic + 'g world" where
  "run_calls R population [] w = Inr w"
| "run_calls R population (CentralLimitTheorem sampleSize numSamples # cs) w =
     bindR (centralLimitTheorem R population sampleSize numSamples w)
       (\<lambda>(cltSeMean, w'). run_calls R population cs w')"
| "run_calls R population (Bootstrap bootstrapSamples sampleSize # cs) w =
     bindR (bootstrap R population bootstrapSamples sampleSize w)
       (\<lambda>(se, w'). run_calls R population cs w')"

text \<open>The contract of \<open>rand.Intn\<close>: at \<open>n > 0\<close> its value is in \<open>[0, n)\<close>.\<close>

definition rand_ok :: "'g rand_lib \<Rightarrow> bool" where
  "rand_ok R = (\<forall>n g. 0 < n \<longrightarrow> 0 \<le> fst (Intn_pos R n g) \<and> fst (Intn_pos R n g) < n)"

text \<open>
  Two concrete random sources, counters, for the instances of the theorems below: one that
  \<open>rand.Seed\<close> sets to the seed and one that \<open>rand.Seed\<close> leaves as it is. And stores with one
  slice.
\<close>

definition counter_source :: "int rand_lib" where
  "counter_source =
     \<lparr>Seed = (\<lambda>seed g. seed),
      NormFloat64 = (\<lambda>g. (of_int g, g + 1)),
      Intn_pos = (\<lambda>n g. (g mod n, g + 1))\<rparr>"

definition unseeded_source :: "int rand_lib" where
  "unseeded_source =
     \<lparr>Seed = (\<lambda>seed g. g),
      NormFloat64 = (\<lambda>g. (of_int g, g + 1)),
      Intn_pos = (\<lambda>n g. (g mod n, g + 1))\<rparr>"

definition example_world :: "int world" where
  "example_world =
     \<lparr>heap = (\<lambda>a. [])(0 := [Fin 2, Fin 1, Fin 3]), nxt = 1, rng = 0, maxlen = 1000\<rparr>"

definition skewed_world :: "int world" where
  "skewed_world =
     \<lparr>heap = (\<lambda>a. [])(0 := [Fin 1, Fin 2, Fin 9, Fin 4]), nxt = 1, rng = 0, maxlen = 1000\<rparr>"

definition pair_world :: "int world" where
  "pair_world = \<lparr>heap = (\<lambda>a. [])(0 := [Fin 3, Fin 1]), nxt = 1, rng = 0, maxlen = 1000\<rparr>"

definition empty_world :: "int world" where
  "empty_world = \<lparr>heap = (\<lambda>a. []), nxt = 1, rng = 0, maxlen = 1000\<rparr>"

definition overflow_world :: "int world" where
  "overflow_world =
     \<lparr>heap = (\<lambda>a. [])(0 := [Fin MaxFloat64, Fin MaxFloat64]), nxt = 1, rng = 0, maxlen = 1000\<rparr>"

section \<open>Auxiliary notions of the proofs\<close>

text \<open>
  The store after a slice is overwritten, after \<open>make\<close>, and after a new sample is filled.
\<close>

definition put :: "addr \<Rightarrow> float64 list \<Rightarrow> 'g world \<Rightarrow> 'g world" where
  "put a xs w = w\<lparr>heap := (heap w)(a := xs)\<rparr>"

definition fresh :: "int \<Rightarrow> 'g world \<Rightarrow> 'g world" where
  "fresh n w = w\<lparr>heap := (heap w)(nxt w := replicate (nat n) (Fin 0)), nxt := Suc (nxt w)\<rparr>"

definition filled :: "'g world \<Rightarrow> float64 list \<Rightarrow> 'g \<Rightarrow> 'g world" where
  "filled w vs g = w\<lparr>heap := (heap w)(nxt w := vs), nxt := Suc (nxt w), rng := g\<rparr>"

text \<open>
  A call keeps the slice \<open>p\<close>: its contents are the same, no reference is given back and the
  run-time system is the same.
\<close>

definition kept :: "addr \<Rightarrow> 'g world \<Rightarrow> 'g world \<Rightarrow> bool" where
  "kept p w w' = (heap w' p = heap w p \<and> nxt w \<le> nxt w' \<and> maxlen w' = maxlen w)"

section \<open>Arithmetic of float64\<close>

lemma in_range_small: "\<bar>a\<bar> \<le> 1000000 \<Longrightarrow> in_range a"
  by (simp add: in_range_def overflow_at_def)

lemma finite_result_exact:
  "(in_range a \<Longrightarrow> in_range b \<Longrightarrow> in_range x) \<Longrightarrow> finite_result a b x = Fin x"
  by (auto simp add: finite_result_def in_range_def)

lemma finite_result_small: "\<bar>x\<bar> \<le> 1000000 \<Longrightarrow> finite_result a b x = Fin x"
  by (rule finite_result_exact) (rule in_range_small)

lemma finite_result_operand [simp]:
  "finite_result a b a = Fin a" "finite_result a b b = Fin b" "finite_result a b 0 = Fin 0"
  by (rule finite_result_exact, simp add: in_range_def overflow_at_def)+

section \<open>The store and the loops\<close>

lemma put_simps [simp]:
  "heap (put a xs w) = (heap w)(a := xs)" "nxt (put a xs w) = nxt w" "rng (put a xs w) = rng w"
  "maxlen (put a xs w) = maxlen w"
  by (simp_all add: put_def)

lemma filled_simps [simp]:
  "heap (filled w vs g) = (heap w)(nxt w := vs)" "nxt (filled w vs g) = Suc (nxt w)"
  "rng (filled w vs g) = g" "maxlen (filled w vs g) = maxlen w"
  by (simp_all add: filled_def)

lemma fresh_simps [simp]:
  "heap (fresh n w) = (heap w)(nxt w := replicate (nat n) (Fin 0))"
  "nxt (fresh n w) = Suc (nxt w)" "rng (fresh n w) = rng w" "maxlen (fresh n w) = maxlen w"
  by (simp_all add: fresh_def)

lemma bindR_Inl [simp]: "bindR (Inl e) f = Inl e"
  by (simp add: bindR_def)

lemma bindR_Inr [simp]: "bindR (Inr x) f = f x"
  by (simp add: bindR_def)

lemma for_loop_done: "n \<le> i \<Longrightarrow> for_loop i n body s = Inr s"
  by (subst for_loop.simps) simp

lemma for_loop_step: "i < n \<Longrightarrow> for_loop i n body s = bindR (body i s) (for_loop (i + 1) n body)"
  by (subst for_loop.simps) (simp add: bindR_def)

lemma index_in_range: "j = int i \<Longrightarrow> i < length xs \<Longrightarrow> index xs j = Inr (xs ! i)"
  by (simp add: index_def len_def)

lemma assign_in_range:
  "0 \<le> i \<Longrightarrow> nat i < length (heap w a) \<Longrightarrow>
     assign a i v w = Inr (put a ((heap w a)[nat i := v]) w)"
  by (simp add: assign_def len_def put_def)

lemma make_fresh: "0 \<le> n \<Longrightarrow> n \<le> int (maxlen w) \<Longrightarrow> make n w = Inr (nxt w, fresh n w)"
  by (simp add: make_def fresh_def)

lemma make_negative: "n < 0 \<Longrightarrow> make n w = Inl MakesliceLenOutOfRange"
  by (simp add: make_def)

lemma make_too_long: "int (maxlen w) < n \<Longrightarrow> make n w = Inl MakesliceLenOutOfRange"
  by (simp add: make_def)

section \<open>Sorting and the median\<close>

lemma inj_fkey: "inj fkey"
proof (rule injI)
  fix x y assume "fkey x = fkey y"
  then show "x = y" by (cases x; cases y) simp_all
qed

lemma length_Float64s [simp]: "length (Float64s xs) = length xs"
  by (simp add: Float64s_def)

lemma mset_Float64s [simp]: "mset (Float64s xs) = mset xs"
  by (simp add: Float64s_def)

lemma set_Float64s [simp]: "set (Float64s xs) = set xs"
  by (simp add: Float64s_def)

lemma sorted_Float64s: "sorted_f64 (Float64s xs)"
  by (simp add: Float64s_def sorted_f64_def)

lemma Float64s_unique:
  assumes "sorted_f64 ys" "mset ys = mset xs"
  shows "Float64s xs = ys"
  unfolding Float64s_def
proof (rule sort_key_inj_key_eq)
  show "mset xs = mset ys" using assms(2) by simp
  show "inj_on fkey (set xs)" using inj_fkey by (rule inj_on_subset) simp
  show "sorted (map fkey ys)" using assms(1) by (simp add: sorted_f64_def)
qed

lemma Float64s_sorted_id: "sorted_f64 xs \<Longrightarrow> Float64s xs = xs"
  by (rule Float64s_unique) simp_all

lemma median_run:
  assumes ne: "heap w data \<noteq> []"
  shows "median data w =
           Inr (median_of (heap w data), put data (Float64s (heap w data)) w)"
proof -
  define xs where "xs = Float64s (heap w data)"
  define n where "n = length xs"
  have npos: "0 < n" using ne by (simp add: n_def xs_def)
  have lt: "n div 2 < n" using npos by simp
  have i2: "index xs (len xs div 2) = Inr (xs ! (n div 2))"
  proof (rule index_in_range)
    show "len xs div 2 = int (n div 2)" by (simp add: len_def n_def)
    show "n div 2 < length xs" using lt by (simp add: n_def)
  qed
  have lenF: "len (Float64s (heap w data)) = len xs" "length (Float64s (heap w data)) = length xs"
    by (simp_all add: xs_def n_def)
  show ?thesis
  proof (cases "even n")
    case True
    then have two: "2 \<le> n" using npos by presburger
    have i1: "index xs (len xs div 2 - 1) = Inr (xs ! (n div 2 - 1))"
    proof (rule index_in_range)
      show "len xs div 2 - 1 = int (n div 2 - 1)"
        using two unfolding len_def n_def by linarith
      show "n div 2 - 1 < length xs" using npos unfolding n_def by linarith
    qed
    have m0: "len xs mod 2 = 0" using True unfolding len_def n_def by presburger
    show ?thesis
      unfolding median_def Let_def median_of_def put_def
      using True m0 by (simp add: lenF i1 i2 n_def flip: xs_def)
  next
    case False
    have m1: "len xs mod 2 \<noteq> 0" using False unfolding len_def n_def by presburger
    show ?thesis
      unfolding median_def Let_def median_of_def put_def
      using False m1 by (simp add: lenF i2 n_def flip: xs_def)
  qed
qed

section \<open>Resampling\<close>

lemma draws_length: "draws R pop m g = Inr (vs, g') \<Longrightarrow> length vs = m"
proof (induction m arbitrary: g vs)
  case 0
  then show ?case by simp
next
  case (Suc m)
  then show ?case
    by (auto simp add: bindR_def split: if_splits prod.splits sum.splits)
qed

lemma fill_loop:
  assumes "sample \<noteq> population" "length (heap w sample) = nat m" "0 \<le> j" "j \<le> m"
  shows "for_loop j m (draw_into R sample population) w =
           bindR (draws R (heap w population) (nat (m - j)) (rng w))
             (\<lambda>(vs, g). Inr (w\<lparr>heap := (heap w)(sample := take (nat j) (heap w sample) @ vs),
                                rng := g\<rparr>))"
  using assms
proof (induction "nat (m - j)" arbitrary: j w)
  case 0
  then have jm: "j = m" by simp
  have "(heap w)(sample := take (nat j) (heap w sample) @ []) = heap w"
    using 0 jm by simp
  then have "w\<lparr>heap := (heap w)(sample := take (nat j) (heap w sample) @ []), rng := rng w\<rparr> = w"
    by simp
  then show ?case using jm by (simp add: for_loop_done del: append_Nil2 fun_upd_apply)
next
  case (Suc d)
  then have lt: "j < m" and d: "d = nat (m - (j + 1))" and nat: "nat (m - j) = Suc d" by linarith+
  let ?pop = "heap w population"
  show ?case
  proof (cases "len ?pop \<le> 0")
    case True
    then show ?thesis using lt by (simp add: for_loop_step nat draw_into_def Intn_def)
  next
    case False
    obtain k g1 where kg: "Intn_pos R (len ?pop) (rng w) = (k, g1)" by (cases "Intn_pos R (len ?pop) (rng w)")
    show ?thesis
    proof (cases "index ?pop k")
      case (Inl e)
      then show ?thesis using lt False kg
        by (simp add: for_loop_step nat draw_into_def Intn_def)
    next
      case (Inr v)
      let ?w2 = "w\<lparr>rng := g1, heap := (heap w)(sample := (heap w sample)[nat j := v])\<rparr>"
      have jl: "nat j < length (heap w sample)" using Suc.prems lt by simp
      have body: "draw_into R sample population j w = Inr ?w2"
        using False kg Inr Suc.prems lt
        by (simp add: draw_into_def Intn_def assign_def len_def)
      have ih: "for_loop (j + 1) m (draw_into R sample population) ?w2 =
           bindR (draws R (heap ?w2 population) (nat (m - (j + 1))) (rng ?w2))
             (\<lambda>(vs, g). Inr (?w2\<lparr>heap := (heap ?w2)(sample := take (nat (j + 1)) (heap ?w2 sample) @ vs),
                                rng := g\<rparr>))"
        using Suc.prems lt by (intro Suc.hyps(1) d) simp_all
      have tk: "take (nat (j + 1)) ((heap w sample)[nat j := v]) = take (nat j) (heap w sample) @ [v]"
      proof -
        have "nat (j + 1) = Suc (nat j)" using Suc.prems by simp
        then show ?thesis using jl by (simp add: take_Suc_conv_app_nth)
      qed
      show ?thesis
        using lt False kg Inr Suc.prems(1)
        by (simp add: for_loop_step body ih nat d [symmetric] tk bindR_def split: sum.splits prod.splits)
    qed
  qed
qed

lemma sample_part:
  assumes live: "population < nxt w" and m: "0 \<le> m" "m \<le> int (maxlen w)"
  shows "bindR (make m w) (\<lambda>(sample, wa).
           bindR (for_loop 0 m (draw_into R sample population) wa) (F sample)) =
         bindR (draws R (heap w population) (nat m) (rng w))
           (\<lambda>(vs, g). F (nxt w) (filled w vs g))"
proof -
  define wa where "wa = w\<lparr>heap := (heap w)(nxt w := replicate (nat m) (Fin 0)), nxt := Suc (nxt w)\<rparr>"
  have wa: "heap wa = (heap w)(nxt w := replicate (nat m) (Fin 0))" "nxt wa = Suc (nxt w)"
    "rng wa = rng w" "maxlen wa = maxlen w" "world.more wa = world.more w"
    by (simp_all add: wa_def)
  have mk: "make m w = Inr (nxt w, wa)" using m by (simp add: make_def wa_def)
  have ne: "nxt w \<noteq> population" using live by simp
  have fl: "for_loop 0 m (draw_into R (nxt w) population) wa =
           bindR (draws R (heap wa population) (nat (m - 0)) (rng wa))
             (\<lambda>(vs, g). Inr (wa\<lparr>heap := (heap wa)(nxt w := take (nat 0) (heap wa (nxt w)) @ vs),
                                rng := g\<rparr>))"
    using m ne by (intro fill_loop) (simp_all add: wa)
  have weq: "wa\<lparr>heap := (heap wa)(nxt w := take (nat 0) (heap wa (nxt w)) @ vs), rng := g\<rparr>
               = filled w vs g" for vs g
    by (rule world.equality) (simp_all add: wa)
  have pop: "heap wa population = heap w population" using ne by (simp add: wa)
  show ?thesis
    unfolding mk bindR_Inr prod.case fl weq pop wa(3)
    by (cases "draws R (heap w population) (nat m) (rng w)") auto
qed

lemma bootstrap_body_panic:
  assumes "population < nxt w" "0 \<le> m" "m \<le> int (maxlen w)"
    and "draws R (heap w population) (nat m) (rng w) = Inl e"
  shows "bootstrap_body R population m means medians i w = Inl e"
  unfolding bootstrap_body_def sample_part [OF assms(1,2,3)] using assms(4) by simp

lemma bootstrap_body_run:
  assumes live: "population < nxt w" "means < nxt w" "medians < nxt w"
    and dist: "means \<noteq> medians" "population \<noteq> means" "population \<noteq> medians"
    and m: "1 \<le> m" "m \<le> int (maxlen w)"
    and i: "0 \<le> i" "nat i < length (heap w means)" "nat i < length (heap w medians)"
    and dr: "draws R (heap w population) (nat m) (rng w) = Inr (vs, g)"
  shows "\<exists>w'. bootstrap_body R population m means medians i w = Inr w'
           \<and> heap w' means = (heap w means)[nat i := mean vs]
           \<and> heap w' medians = (heap w medians)[nat i := median_of vs]
           \<and> heap w' population = heap w population
           \<and> nxt w' = Suc (nxt w) \<and> rng w' = g \<and> maxlen w' = maxlen w"
proof -
  have m0: "0 \<le> m" using m by simp
  have vs: "vs \<noteq> []" using draws_length [OF dr] m(1) by auto
  define wb where "wb = filled w vs g"
  define wc where "wc = put means ((heap wb means)[nat i := mean vs]) wb"
  define wd where "wd = put (nxt w) (Float64s (heap wc (nxt w))) wc"
  define we where "we = put medians ((heap wd medians)[nat i := median_of vs]) wd"
  have a1: "assign means i (mean vs) wb = Inr wc"
    unfolding wc_def using i live by (intro assign_in_range) (simp_all add: wb_def)
  have sm: "heap wc (nxt w) = vs" using live by (simp add: wc_def wb_def)
  have md: "median (nxt w) wc = Inr (median_of vs, wd)"
    using median_run [of wc "nxt w"] vs sm by (simp add: wd_def)
  have a2: "assign medians i (median_of vs) wd = Inr we"
    unfolding we_def using i live dist by (intro assign_in_range) (simp_all add: wd_def wc_def wb_def)
  have "bootstrap_body R population m means medians i w = Inr we"
    unfolding bootstrap_body_def sample_part [OF live(1) m0 m(2)]
    using live by (simp add: dr a1 md a2 flip: wb_def)
  moreover have "heap we means = (heap w means)[nat i := mean vs]"
    using live dist by (simp add: we_def wd_def wc_def wb_def)
  moreover have "heap we medians = (heap w medians)[nat i := median_of vs]"
    using live dist by (simp add: we_def wd_def wc_def wb_def)
  moreover have "heap we population = heap w population"
    using live dist by (simp add: we_def wd_def wc_def wb_def)
  moreover have "nxt we = Suc (nxt w)" "rng we = g" "maxlen we = maxlen w"
    by (simp_all add: we_def wd_def wc_def wb_def)
  ultimately show ?thesis by blast
qed

lemma clt_body_panic:
  assumes "population < nxt w" "0 \<le> m" "m \<le> int (maxlen w)"
    and "draws R (heap w population) (nat m) (rng w) = Inl e"
  shows "clt_body R population m means i w = Inl e"
  unfolding clt_body_def sample_part [OF assms(1,2,3)] using assms(4) by simp

lemma clt_body_run:
  assumes live: "population < nxt w" "means < nxt w"
    and dist: "population \<noteq> means"
    and m: "0 \<le> m" "m \<le> int (maxlen w)"
    and i: "0 \<le> i" "nat i < length (heap w means)"
    and dr: "draws R (heap w population) (nat m) (rng w) = Inr (vs, g)"
  shows "\<exists>w'. clt_body R population m means i w = Inr w'
           \<and> heap w' means = (heap w means)[nat i := mean vs]
           \<and> heap w' population = heap w population
           \<and> nxt w' = Suc (nxt w) \<and> rng w' = g \<and> maxlen w' = maxlen w"
proof -
  define wb where "wb = filled w vs g"
  define wc where "wc = put means ((heap wb means)[nat i := mean vs]) wb"
  have a1: "assign means i (mean vs) wb = Inr wc"
    unfolding wc_def using i live by (intro assign_in_range) (simp_all add: wb_def)
  have "clt_body R population m means i w = Inr wc"
    unfolding clt_body_def sample_part [OF live(1) m]
    using live by (simp add: dr a1 flip: wb_def)
  moreover have "heap wc means = (heap w means)[nat i := mean vs]"
    using live dist by (simp add: wc_def wb_def)
  moreover have "heap wc population = heap w population"
    using live dist by (simp add: wc_def wb_def)
  moreover have "nxt wc = Suc (nxt w)" "rng wc = g" "maxlen wc = maxlen w"
    by (simp_all add: wc_def wb_def)
  ultimately show ?thesis by blast
qed

lemma take_update_snoc: "n < length xs \<Longrightarrow> take (Suc n) (xs[n := v]) @ ys = take n xs @ v # ys"
  by (simp add: take_Suc_conv_app_nth)

lemma bootstrap_loop:
  assumes live: "population < nxt w" "means < nxt w" "medians < nxt w"
    and dist: "means \<noteq> medians" "population \<noteq> means" "population \<noteq> medians"
    and m: "1 \<le> m"
    and i: "0 \<le> i" "i \<le> k"
    and lens: "length (heap w means) = nat k" "length (heap w medians) = nat k"
    and ml: "m \<le> int (maxlen w)"
  shows "case draw_samples R (heap w population) (nat m) (nat (k - i)) (rng w) of
           Inl e \<Rightarrow> for_loop i k (bootstrap_body R population m means medians) w = Inl e
         | Inr (ss, g) \<Rightarrow>
             (\<exists>w'. for_loop i k (bootstrap_body R population m means medians) w = Inr w'
                \<and> heap w' means = take (nat i) (heap w means) @ map mean ss
                \<and> heap w' medians = take (nat i) (heap w medians) @ map median_of ss
                \<and> heap w' population = heap w population \<and> rng w' = g)"
  using live i lens ml
proof (induction "nat (k - i)" arbitrary: i w)
  case 0
  then have "i = k" by simp
  with 0 show ?case by (simp add: for_loop_done)
next
  case (Suc d)
  then have lt: "i < k" and d: "d = nat (k - (i + 1))" and nat: "nat (k - i) = Suc d" by linarith+
  let ?body = "bootstrap_body R population m means medians"
  have m0: "0 \<le> m" using m by simp
  show ?case
  proof (cases "draws R (heap w population) (nat m) (rng w)")
    case (Inl e)
    have "?body i w = Inl e"
      using Suc.prems(1) m0 Suc.prems(8) Inl by (rule bootstrap_body_panic)
    then show ?thesis using lt Inl by (simp add: nat for_loop_step)
  next
    case (Inr p)
    obtain vs g1 where p: "p = (vs, g1)" by (cases p)
    have il: "nat i < length (heap w means)" "nat i < length (heap w medians)"
      using Suc.prems lt by simp_all
    obtain w1 where w1: "?body i w = Inr w1"
      "heap w1 means = (heap w means)[nat i := mean vs]"
      "heap w1 medians = (heap w medians)[nat i := median_of vs]"
      "heap w1 population = heap w population" "nxt w1 = Suc (nxt w)" "rng w1 = g1"
      "maxlen w1 = maxlen w"
      using bootstrap_body_run [OF Suc.prems(1,2,3) dist m Suc.prems(8,4) il Inr [unfolded p]]
      by blast
    have ih: "case draw_samples R (heap w1 population) (nat m) (nat (k - (i + 1))) (rng w1) of
           Inl e \<Rightarrow> for_loop (i + 1) k ?body w1 = Inl e
         | Inr (ss, g) \<Rightarrow>
             (\<exists>w'. for_loop (i + 1) k ?body w1 = Inr w'
                \<and> heap w' means = take (nat (i + 1)) (heap w1 means) @ map mean ss
                \<and> heap w' medians = take (nat (i + 1)) (heap w1 medians) @ map median_of ss
                \<and> heap w' population = heap w1 population \<and> rng w' = g)"
      using Suc.prems lt by (intro Suc.hyps(1) d) (simp_all add: w1)
    have si: "nat (i + 1) = Suc (nat i)" using Suc.prems by simp
    show ?thesis
    proof (cases "draw_samples R (heap w population) (nat m) d g1")
      case (Inl e)
      then show ?thesis using ih lt Inr p
        by (simp add: nat for_loop_step w1 d [symmetric])
    next
      case (Inr q)
      obtain ss g2 where q: "q = (ss, g2)" by (cases q)
      obtain w' where w': "for_loop (i + 1) k ?body w1 = Inr w'"
        "heap w' means = take (nat (i + 1)) (heap w1 means) @ map mean ss"
        "heap w' medians = take (nat (i + 1)) (heap w1 medians) @ map median_of ss"
        "heap w' population = heap w1 population" "rng w' = g2"
        using ih Inr q by (auto simp add: w1 d [symmetric])
      have "for_loop i k ?body w = Inr w'" using lt by (simp add: for_loop_step w1 w')
      moreover have "heap w' means = take (nat i) (heap w means) @ map mean (vs # ss)"
        using il by (simp add: w' w1 si take_update_snoc)
      moreover have "heap w' medians = take (nat i) (heap w medians) @ map median_of (vs # ss)"
        using il by (simp add: w' w1 si take_update_snoc)
      moreover have "heap w' population = heap w population" "rng w' = g2"
        by (simp_all add: w' w1)
      ultimately show ?thesis using \<open>draws R (heap w population) (nat m) (rng w) = Inr p\<close> p Inr q
        by (simp add: nat)
    qed
  qed
qed

lemma clt_loop:
  assumes live: "population < nxt w" "means < nxt w"
    and dist: "population \<noteq> means"
    and m: "0 \<le> m"
    and i: "0 \<le> i" "i \<le> k"
    and lens: "length (heap w means) = nat k"
    and ml: "m \<le> int (maxlen w)"
  shows "case draw_samples R (heap w population) (nat m) (nat (k - i)) (rng w) of
           Inl e \<Rightarrow> for_loop i k (clt_body R population m means) w = Inl e
         | Inr (ss, g) \<Rightarrow>
             (\<exists>w'. for_loop i k (clt_body R population m means) w = Inr w'
                \<and> heap w' means = take (nat i) (heap w means) @ map mean ss
                \<and> heap w' population = heap w population \<and> rng w' = g)"
  using live i lens ml
proof (induction "nat (k - i)" arbitrary: i w)
  case 0
  then have "i = k" by simp
  with 0 show ?case by (simp add: for_loop_done)
next
  case (Suc d)
  then have lt: "i < k" and d: "d = nat (k - (i + 1))" and nat: "nat (k - i) = Suc d" by linarith+
  let ?body = "clt_body R population m means"
  show ?case
  proof (cases "draws R (heap w population) (nat m) (rng w)")
    case (Inl e)
    have "?body i w = Inl e"
      using Suc.prems(1) m Suc.prems(6) Inl by (rule clt_body_panic)
    then show ?thesis using lt Inl by (simp add: nat for_loop_step)
  next
    case (Inr p)
    obtain vs g1 where p: "p = (vs, g1)" by (cases p)
    have il: "nat i < length (heap w means)"
      using Suc.prems lt by simp
    obtain w1 where w1: "?body i w = Inr w1"
      "heap w1 means = (heap w means)[nat i := mean vs]"
      "heap w1 population = heap w population" "nxt w1 = Suc (nxt w)" "rng w1 = g1"
      "maxlen w1 = maxlen w"
      using clt_body_run [OF Suc.prems(1,2) dist m Suc.prems(6,3) il Inr [unfolded p]]
      by blast
    have ih: "case draw_samples R (heap w1 population) (nat m) (nat (k - (i + 1))) (rng w1) of
           Inl e \<Rightarrow> for_loop (i + 1) k ?body w1 = Inl e
         | Inr (ss, g) \<Rightarrow>
             (\<exists>w'. for_loop (i + 1) k ?body w1 = Inr w'
                \<and> heap w' means = take (nat (i + 1)) (heap w1 means) @ map mean ss
                \<and> heap w' population = heap w1 population \<and> rng w' = g)"
      using Suc.prems lt by (intro Suc.hyps(1) d) (simp_all add: w1)
    have si: "nat (i + 1) = Suc (nat i)" using Suc.prems by simp
    show ?thesis
    proof (cases "draw_samples R (heap w population) (nat m) d g1")
      case (Inl e)
      then show ?thesis using ih lt Inr p
        by (simp add: nat for_loop_step w1 d [symmetric])
    next
      case (Inr q)
      obtain ss g2 where q: "q = (ss, g2)" by (cases q)
      obtain w' where w': "for_loop (i + 1) k ?body w1 = Inr w'"
        "heap w' means = take (nat (i + 1)) (heap w1 means) @ map mean ss"
        "heap w' population = heap w1 population" "rng w' = g2"
        using ih Inr q by (auto simp add: w1 d [symmetric])
      have "for_loop i k ?body w = Inr w'" using lt by (simp add: for_loop_step w1 w')
      moreover have "heap w' means = take (nat i) (heap w means) @ map mean (vs # ss)"
        using il by (simp add: w' w1 si take_update_snoc)
      moreover have "heap w' population = heap w population" "rng w' = g2"
        by (simp_all add: w' w1)
      ultimately show ?thesis using \<open>draws R (heap w population) (nat m) (rng w) = Inr p\<close> p Inr q
        by (simp add: nat)
    qed
  qed
qed

lemma bootstrap_char:
  assumes live: "population < nxt w" and k: "0 \<le> k" "k \<le> int (maxlen w)"
    and m: "1 \<le> m" "m \<le> int (maxlen w)"
  shows "case draw_samples R (heap w population) (nat m) (nat k) (rng w) of
           Inl e \<Rightarrow> bootstrap R population k m w = Inl e
         | Inr (ss, g) \<Rightarrow>
             (\<exists>w'. bootstrap R population k m w =
                      Inr ((standardError (map mean ss), standardError (map median_of ss)), w')
                \<and> heap w' population = heap w population \<and> rng w' = g)"
proof -
  define w1 where "w1 = fresh k w"
  define w2 where "w2 = fresh k w1"
  let ?means = "nxt w" and ?medians = "Suc (nxt w)"
  have mk1: "make k w = Inr (?means, w1)" using k by (simp add: make_fresh w1_def)
  have mk2: "make k w1 = Inr (?medians, w2)" using k by (simp add: make_fresh w2_def w1_def)
  have pop2: "heap w2 population = heap w population" and rng2: "rng w2 = rng w"
    using live by (simp_all add: w2_def w1_def)
  have loop: "case draw_samples R (heap w2 population) (nat m) (nat (k - 0)) (rng w2) of
           Inl e \<Rightarrow> for_loop 0 k (bootstrap_body R population m ?means ?medians) w2 = Inl e
         | Inr (ss, g) \<Rightarrow>
             (\<exists>w'. for_loop 0 k (bootstrap_body R population m ?means ?medians) w2 = Inr w'
                \<and> heap w' ?means = take (nat 0) (heap w2 ?means) @ map mean ss
                \<and> heap w' ?medians = take (nat 0) (heap w2 ?medians) @ map median_of ss
                \<and> heap w' population = heap w2 population \<and> rng w' = g)"
    using live k m by (intro bootstrap_loop) (simp_all add: w2_def w1_def)
  show ?thesis
  proof (cases "draw_samples R (heap w population) (nat m) (nat k) (rng w)")
    case (Inl e)
    then show ?thesis using loop
      by (simp add: bootstrap_def mk1 mk2 pop2 rng2)
  next
    case (Inr q)
    obtain ss g where q: "q = (ss, g)" by (cases q)
    obtain w' where w': "for_loop 0 k (bootstrap_body R population m ?means ?medians) w2 = Inr w'"
      "heap w' ?means = map mean ss" "heap w' ?medians = map median_of ss"
      "heap w' population = heap w population" "rng w' = g"
      using loop Inr q by (auto simp add: pop2 rng2)
    show ?thesis using Inr q
      by (simp add: bootstrap_def mk1 mk2 w' Let_def)
  qed
qed

lemma clt_char:
  assumes live: "population < nxt w" and k: "0 \<le> k" "k \<le> int (maxlen w)"
    and m: "0 \<le> m" "m \<le> int (maxlen w)"
  shows "case draw_samples R (heap w population) (nat m) (nat k) (rng w) of
           Inl e \<Rightarrow> centralLimitTheorem R population m k w = Inl e
         | Inr (ss, g) \<Rightarrow>
             (\<exists>w'. centralLimitTheorem R population m k w =
                      Inr (standardError (map mean ss), w')
                \<and> heap w' population = heap w population \<and> rng w' = g)"
proof -
  define w1 where "w1 = fresh k w"
  let ?means = "nxt w"
  have mk1: "make k w = Inr (?means, w1)" using k by (simp add: make_fresh w1_def)
  have pop1: "heap w1 population = heap w population" and rng1: "rng w1 = rng w"
    using live by (simp_all add: w1_def)
  have loop: "case draw_samples R (heap w1 population) (nat m) (nat (k - 0)) (rng w1) of
           Inl e \<Rightarrow> for_loop 0 k (clt_body R population m ?means) w1 = Inl e
         | Inr (ss, g) \<Rightarrow>
             (\<exists>w'. for_loop 0 k (clt_body R population m ?means) w1 = Inr w'
                \<and> heap w' ?means = take (nat 0) (heap w1 ?means) @ map mean ss
                \<and> heap w' population = heap w1 population \<and> rng w' = g)"
    using live k m by (intro clt_loop) (simp_all add: w1_def)
  show ?thesis
  proof (cases "draw_samples R (heap w population) (nat m) (nat k) (rng w)")
    case (Inl e)
    then show ?thesis using loop
      by (simp add: centralLimitTheorem_def mk1 pop1 rng1)
  next
    case (Inr q)
    obtain ss g where q: "q = (ss, g)" by (cases q)
    obtain w' where w': "for_loop 0 k (clt_body R population m ?means) w1 = Inr w'"
      "heap w' ?means = map mean ss"
      "heap w' population = heap w population" "rng w' = g"
      using loop Inr q by (auto simp add: pop1 rng1)
    show ?thesis using Inr q
      by (simp add: centralLimitTheorem_def mk1 w')
  qed
qed

lemma rand_ok_counter_source: "rand_ok counter_source"
  by (simp add: rand_ok_def counter_source_def)

lemma draws_ok:
  assumes "rand_ok R" "pop \<noteq> []"
  shows "\<exists>vs g'. draws R pop m g = Inr (vs, g') \<and> length vs = m \<and> set vs \<subseteq> set pop"
proof (induction m arbitrary: g)
  case 0
  show ?case by simp
next
  case (Suc m)
  have pos: "0 < len pop" using assms(2) by (simp add: len_def)
  obtain k g1 where kg: "Intn_pos R (len pop) g = (k, g1)" by (cases "Intn_pos R (len pop) g")
  have k: "0 \<le> k" "k < len pop"
    using assms(1) pos kg unfolding rand_ok_def by (metis fst_conv)+
  then have ix: "index pop k = Inr (pop ! nat k)" "pop ! nat k \<in> set pop"
    by (simp_all add: index_def len_def)
  obtain vs g2 where "draws R pop m g1 = Inr (vs, g2)" "length vs = m" "set vs \<subseteq> set pop"
    using Suc.IH by blast
  then show ?case using pos kg ix by simp
qed

lemma draw_samples_ok:
  assumes "rand_ok R" "pop \<noteq> []"
  shows "\<exists>ss g'. draw_samples R pop m k g = Inr (ss, g') \<and> length ss = k
           \<and> (\<forall>s\<in>set ss. length s = m \<and> set s \<subseteq> set pop)"
proof (induction k arbitrary: g)
  case 0
  show ?case by simp
next
  case (Suc k)
  obtain vs g1 where d: "draws R pop m g = Inr (vs, g1)" "length vs = m" "set vs \<subseteq> set pop"
    using draws_ok [OF assms] by blast
  obtain ss g2 where "draw_samples R pop m k g1 = Inr (ss, g2)" "length ss = k"
    "\<forall>s\<in>set ss. length s = m \<and> set s \<subseteq> set pop"
    using Suc.IH by blast
  then show ?case using d by simp
qed

text \<open>
  C2. On a population that is not empty, with \<open>bootstrapSamples \<ge> 2\<close> and
  \<open>sampleSize \<ge> 1\<close>, both lengths that \<open>make\<close> gives, \<open>bootstrap\<close> draws \<open>bootstrapSamples\<close>
  samples one after the other from the random source, each of \<open>sampleSize\<close> elements
  \<open>population[rand.Intn(len(population))]\<close>, and returns \<open>standardError\<close> of the means of the
  samples and \<open>standardError\<close> of their medians, two sequences of length \<open>bootstrapSamples\<close>.
  On the empty population it panics in \<open>rand.Intn\<close>.
\<close>

theorem bootstrap_resamples:
  assumes "rand_ok R" and "population < nxt w" and "heap w population \<noteq> []"
    and "2 \<le> bootstrapSamples" and "bootstrapSamples \<le> int (maxlen w)"
    and "1 \<le> sampleSize" and "sampleSize \<le> int (maxlen w)"
  shows "\<exists>samples g w'.
           draw_samples R (heap w population) (nat sampleSize) (nat bootstrapSamples) (rng w)
             = Inr (samples, g)
         \<and> length samples = nat bootstrapSamples
         \<and> (\<forall>s\<in>set samples. length s = nat sampleSize \<and> set s \<subseteq> set (heap w population))
         \<and> length (map mean samples) = nat bootstrapSamples
         \<and> length (map median_of samples) = nat bootstrapSamples
         \<and> bootstrap R population bootstrapSamples sampleSize w
             = Inr ((standardError (map mean samples),
                     standardError (map median_of samples)), w')
         \<and> rng w' = g"
proof -
  obtain ss g where ss: "draw_samples R (heap w population) (nat sampleSize) (nat bootstrapSamples) (rng w)
             = Inr (ss, g)" "length ss = nat bootstrapSamples"
     "\<forall>s\<in>set ss. length s = nat sampleSize \<and> set s \<subseteq> set (heap w population)"
    using draw_samples_ok [OF assms(1,3)] by blast
  have k0: "0 \<le> bootstrapSamples" using assms(4) by simp
  obtain w' where w': "bootstrap R population bootstrapSamples sampleSize w =
                      Inr ((standardError (map mean ss), standardError (map median_of ss)), w')"
     "rng w' = g"
    using bootstrap_char [OF assms(2) k0 assms(5,6,7), of R] ss(1) by auto
  show ?thesis
    using ss w' by simp
qed

theorem bootstrap_resamples_witness:
  "rand_ok counter_source \<and> 0 < nxt skewed_world \<and> heap skewed_world 0 \<noteq> []
   \<and> (2::int) \<le> 2 \<and> 2 \<le> int (maxlen skewed_world)
   \<and> (1::int) \<le> 3 \<and> 3 \<le> int (maxlen skewed_world)
   \<and> draw_samples counter_source (heap skewed_world 0) (nat 3) (nat 2) (rng skewed_world)
         = Inr ([[Fin 1, Fin 2, Fin 9], [Fin 4, Fin 1, Fin 2]], 6)
   \<and> (\<exists>w'. bootstrap counter_source 0 2 3 skewed_world
              = Inr ((standardError [mean [Fin 1, Fin 2, Fin 9], mean [Fin 4, Fin 1, Fin 2]],
                      standardError [median_of [Fin 1, Fin 2, Fin 9],
                                     median_of [Fin 4, Fin 1, Fin 2]]), w')
            \<and> rng w' = 6)
   \<and> mean [Fin 1, Fin 2, Fin 9] = Fin 4 \<and> median_of [Fin 1, Fin 2, Fin 9] = Fin 2"
proof -
  have h2: "0 < nxt skewed_world" by (simp add: skewed_world_def)
  have h3: "heap skewed_world 0 \<noteq> []" by (simp add: skewed_world_def)
  have h4: "(2::int) \<le> 2" and h6: "(1::int) \<le> 3" by simp_all
  have h5: "2 \<le> int (maxlen skewed_world)" and h7: "3 \<le> int (maxlen skewed_world)"
    by (simp_all add: skewed_world_def)
  have pop: "heap skewed_world 0 = [Fin 1, Fin 2, Fin 9, Fin 4]" "rng skewed_world = 0"
    by (simp_all add: skewed_world_def)
  have ds: "draw_samples counter_source (heap skewed_world 0) (nat 3) (nat 2) (rng skewed_world)
              = Inr ([[Fin 1, Fin 2, Fin 9], [Fin 4, Fin 1, Fin 2]], 6)"
    by (simp add: pop eval_nat_numeral counter_source_def index_def len_def)
  have run: "\<exists>w'. bootstrap counter_source 0 2 3 skewed_world
              = Inr ((standardError [mean [Fin 1, Fin 2, Fin 9], mean [Fin 4, Fin 1, Fin 2]],
                      standardError [median_of [Fin 1, Fin 2, Fin 9],
                                     median_of [Fin 4, Fin 1, Fin 2]]), w')
            \<and> rng w' = 6"
    using bootstrap_resamples [OF rand_ok_counter_source h2 h3 h4 h5 h6 h7] unfolding ds by auto
  have mn: "mean [Fin 1, Fin 2, Fin 9] = Fin 4"
    by (simp add: mean_def len_def float64_of_int_def finite_result_small)
  have "Float64s [Fin 1, Fin 2, Fin 9] = [Fin 1, Fin 2, Fin 9]"
    by (simp add: Float64s_def)
  then have md: "median_of [Fin 1, Fin 2, Fin 9] = Fin 2"
    by (simp add: median_of_def)
  show ?thesis
    by (intro conjI rand_ok_counter_source h2 h3 h4 h5 h6 h7 ds run mn md)
qed

text \<open>On the empty population \<open>bootstrap\<close> panics: \<open>rand.Intn(0)\<close>.\<close>

theorem bootstrap_empty_population_panics:
  "heap empty_world 0 = []
   \<and> bootstrap counter_source 0 2 1 empty_world = Inl IntnInvalidArgument"
proof -
  have live: "0 < nxt empty_world" and pop: "heap empty_world 0 = []"
    and lim: "2 \<le> int (maxlen empty_world)" "1 \<le> int (maxlen empty_world)"
    by (simp_all add: empty_world_def)
  have k0: "(0::int) \<le> 2" and m1: "(1::int) \<le> 1" by simp_all
  have "draw_samples counter_source (heap empty_world 0) (nat 1) (nat 2) (rng empty_world)
          = Inl IntnInvalidArgument"
    by (simp add: pop eval_nat_numeral len_def)
  then have "bootstrap counter_source 0 2 1 empty_world = Inl IntnInvalidArgument"
    using bootstrap_char [OF live k0 lim(1) m1 lim(2), of counter_source] by simp
  with pop show ?thesis by simp
qed

lemma bootstrap_loop_make_panics:
  assumes "0 < k" "int (maxlen w) < m"
  shows "for_loop 0 k (bootstrap_body R population m means medians) w
           = Inl MakesliceLenOutOfRange"
  using assms by (simp add: for_loop_step bootstrap_body_def make_too_long)

lemma clt_loop_make_panics:
  assumes "0 < k" "int (maxlen w) < m"
  shows "for_loop 0 k (clt_body R population m means) w = Inl MakesliceLenOutOfRange"
  using assms by (simp add: for_loop_step clt_body_def make_too_long)

text \<open>
  C10. From the same store and the same state of the random source, with
  \<open>sampleSize \<ge> 1\<close> and \<open>k \<ge> 2\<close>, \<open>centralLimitTheorem(population, sampleSize, k)\<close> returns the
  first component of \<open>bootstrap(population, k, sampleSize)\<close> and leaves the random source in
  the same state; when one panics, the other panics in the same way.
\<close>

theorem clt_is_mean_half_of_bootstrap:
  assumes "population < nxt w" and "1 \<le> sampleSize" and "2 \<le> k"
  shows "map_sum id fst (centralLimitTheorem R population sampleSize k w)
           = map_sum id (\<lambda>r. fst (fst r)) (bootstrap R population k sampleSize w)
       \<and> map_sum id (\<lambda>r. rng (snd r)) (centralLimitTheorem R population sampleSize k w)
           = map_sum id (\<lambda>r. rng (snd r)) (bootstrap R population k sampleSize w)"
proof -
  have k0: "0 \<le> k" "0 < k" and m0: "0 \<le> sampleSize" using assms by simp_all
  consider (long) "int (maxlen w) < k"
    | (wide) "k \<le> int (maxlen w)" "int (maxlen w) < sampleSize"
    | (fits) "k \<le> int (maxlen w)" "sampleSize \<le> int (maxlen w)"
    by linarith
  then show ?thesis
  proof cases
    case long
    then show ?thesis
      by (simp add: centralLimitTheorem_def bootstrap_def make_too_long)
  next
    case wide
    have "centralLimitTheorem R population sampleSize k w = Inl MakesliceLenOutOfRange"
      using wide k0
      by (simp add: centralLimitTheorem_def make_fresh clt_loop_make_panics)
    moreover have "bootstrap R population k sampleSize w = Inl MakesliceLenOutOfRange"
      using wide k0
      by (simp add: bootstrap_def make_fresh bootstrap_loop_make_panics)
    ultimately show ?thesis by simp
  next
    case fits
    note b = bootstrap_char [OF assms(1) k0(1) fits(1) assms(2) fits(2), of R]
    note c = clt_char [OF assms(1) k0(1) fits(1) m0 fits(2), of R]
    show ?thesis
    proof (cases "draw_samples R (heap w population) (nat sampleSize) (nat k) (rng w)")
      case (Inl e)
      then show ?thesis using b c by simp
    next
      case (Inr q)
      obtain ss g where q: "q = (ss, g)" by (cases q)
      obtain wb where "bootstrap R population k sampleSize w =
          Inr ((standardError (map mean ss), standardError (map median_of ss)), wb)" "rng wb = g"
        using b Inr q by auto
      moreover obtain wc where "centralLimitTheorem R population sampleSize k w =
          Inr (standardError (map mean ss), wc)" "rng wc = g"
        using c Inr q by auto
      ultimately show ?thesis by simp
    qed
  qed
qed

theorem clt_is_mean_half_of_bootstrap_witness:
  "0 < nxt example_world \<and> (1::int) \<le> 1 \<and> (2::int) \<le> 2
   \<and> map_sum id fst (centralLimitTheorem counter_source 0 1 2 example_world)
           = map_sum id (\<lambda>r. fst (fst r)) (bootstrap counter_source 0 2 1 example_world)
   \<and> map_sum id (\<lambda>r. rng (snd r)) (centralLimitTheorem counter_source 0 1 2 example_world)
           = map_sum id (\<lambda>r. rng (snd r)) (bootstrap counter_source 0 2 1 example_world)
   \<and> map_sum id fst (centralLimitTheorem counter_source 0 1 2 example_world) = Inr (Fin (1/2))"
proof -
  have h1: "0 < nxt example_world" by (simp add: example_world_def)
  have h2: "(1::int) \<le> 1" and h3: "(2::int) \<le> 2" by simp_all
  have lim: "2 \<le> int (maxlen example_world)" "1 \<le> int (maxlen example_world)"
    by (simp_all add: example_world_def)
  have k0: "(0::int) \<le> 2" and m0: "(0::int) \<le> 1" by simp_all
  have pop: "heap example_world 0 = [Fin 2, Fin 1, Fin 3]" "rng example_world = 0"
    by (simp_all add: example_world_def)
  have ds: "draw_samples counter_source (heap example_world 0) (nat 1) (nat 2) (rng example_world)
              = Inr ([[Fin 2], [Fin 1]], 2)"
    by (simp add: pop eval_nat_numeral counter_source_def index_def len_def)
  have se: "standardError [mean [Fin 2], mean [Fin 1]] = Fin (1/2)"
    by (simp add: standardError_def mean_def sum_sq_dev_def fsub_def len_def float64_of_int_def
          Let_def power2_eq_square real_sqrt_divide finite_result_small flip: real_sqrt_mult)
  have v: "map_sum id fst (centralLimitTheorem counter_source 0 1 2 example_world) = Inr (Fin (1/2))"
    using clt_char [OF h1 k0 lim(1) m0 lim(2), of counter_source] unfolding ds
    by (auto simp add: se)
  show ?thesis
    by (intro conjI h1 h2 h3 v
          conjunct1 [OF clt_is_mean_half_of_bootstrap [OF h1 h2 h3]]
          conjunct2 [OF clt_is_mean_half_of_bootstrap [OF h1 h2 h3]])
qed

section \<open>The median\<close>



lemma sorted_f64_map_Fin: "sorted_f64 (map Fin zs) = sorted zs"
  by (simp add: sorted_f64_def sorted_map o_def)

lemma Float64s_map_Fin: "Float64s (map Fin xs) = map Fin (sort xs)"
  by (rule Float64s_unique) (simp_all add: sorted_f64_map_Fin)

lemma nth_sort_bounds:
  assumes "i < length xs"
  shows "Min (set xs) \<le> sort xs ! i" "sort xs ! i \<le> Max (set xs)"
proof -
  have "sort xs ! i \<in> set xs" using assms by (metis length_sort nth_mem set_sort)
  then show "Min (set xs) \<le> sort xs ! i" "sort xs ! i \<le> Max (set xs)" by simp_all
qed

lemma avg_bounds:
  fixes a b lo hi :: real
  assumes "lo \<le> a" "lo \<le> b" "a \<le> hi" "b \<le> hi"
  shows "lo \<le> (a + b) / 2" "(a + b) / 2 \<le> hi"
  using assms by simp_all

lemma half_sum_exact:
  assumes "in_range (a + b)"
  shows "fdiv (fadd (Fin a) (Fin b)) (Fin 2) = Fin ((a + b) / 2)"
proof -
  have "in_range ((a + b) / 2)" using assms by (simp add: in_range_def)
  then show ?thesis using assms by (simp add: finite_result_exact)
qed

text \<open>
  C8. On a slice of finite numbers that is not empty, \<open>median\<close> returns a finite number
  between the least and the greatest element, when the length is odd or the sum of the two
  middle elements of the sorted slice does not overflow.
\<close>

theorem median_between_min_and_max:
  assumes "heap w data = map Fin xs" and "xs \<noteq> []"
    and "even (length xs) \<Longrightarrow>
           in_range (sort xs ! (length xs div 2 - 1) + sort xs ! (length xs div 2))"
  shows "\<exists>r w'. median data w = Inr (Fin r, w') \<and> Min (set xs) \<le> r \<and> r \<le> Max (set xs)"
proof -
  define n where "n = length xs"
  have npos: "0 < n" using assms(2) by (simp add: n_def)
  have ne: "heap w data \<noteq> []" using assms by simp
  have run: "median data w = Inr (median_of (map Fin xs), put data (Float64s (map Fin xs)) w)"
    using median_run [OF ne] by (simp add: assms(1))
  have hi: "n div 2 < length xs" using npos by (simp add: n_def)
  have lo: "n div 2 - 1 < length xs" using npos unfolding n_def by linarith
  note b1 = nth_sort_bounds [OF hi] and b2 = nth_sort_bounds [OF lo]
  show ?thesis
  proof (cases "odd n")
    case True
    then have "median_of (map Fin xs) = Fin (sort xs ! (n div 2))"
      using hi by (simp add: median_of_def Float64s_map_Fin Let_def n_def)
    then show ?thesis using run b1 by simp
  next
    case False
    then have "in_range (sort xs ! (n div 2 - 1) + sort xs ! (n div 2))"
      using assms(3) by (simp add: n_def)
    then have "fdiv (fadd (Fin (sort xs ! (n div 2 - 1))) (Fin (sort xs ! (n div 2)))) (Fin 2)
                 = Fin ((sort xs ! (n div 2 - 1) + sort xs ! (n div 2)) / 2)"
      by (rule half_sum_exact)
    then have "median_of (map Fin xs) = Fin ((sort xs ! (n div 2 - 1) + sort xs ! (n div 2)) / 2)"
      using False hi lo by (simp add: median_of_def Float64s_map_Fin Let_def n_def)
    then have "median data w =
        Inr (Fin ((sort xs ! (n div 2 - 1) + sort xs ! (n div 2)) / 2),
             put data (Float64s (map Fin xs)) w)"
      by (simp only: run)
    moreover have "Min (set xs) \<le> (sort xs ! (n div 2 - 1) + sort xs ! (n div 2)) / 2"
      by (rule avg_bounds(1) [OF b2(1) b1(1) b2(2) b1(2)])
    moreover have "(sort xs ! (n div 2 - 1) + sort xs ! (n div 2)) / 2 \<le> Max (set xs)"
      by (rule avg_bounds(2) [OF b2(1) b1(1) b2(2) b1(2)])
    ultimately show ?thesis by blast
  qed
qed

theorem median_between_min_and_max_witness:
  "heap pair_world 0 = map Fin [3, 1] \<and> [3, 1] \<noteq> ([] :: real list)
   \<and> in_range (sort [3, 1] ! (length [3, 1 :: real] div 2 - 1)
                + sort [3, 1] ! (length [3, 1 :: real] div 2))
   \<and> (\<exists>r w'. median 0 pair_world = Inr (Fin r, w')
          \<and> Min (set [3, 1]) \<le> r \<and> r \<le> Max (set [3, 1]))"
proof -
  have h1: "heap pair_world 0 = map Fin [3, 1]" by (simp add: pair_world_def)
  have h2: "[3, 1] \<noteq> ([] :: real list)" by simp
  have h3: "in_range (sort [3, 1] ! (length [3, 1 :: real] div 2 - 1)
                + sort [3, 1] ! (length [3, 1 :: real] div 2))"
    by (simp add: in_range_small)
  show ?thesis by (intro conjI h1 h2 h3 median_between_min_and_max [OF h1 h2 h3])
qed

text \<open>
  On two elements \<open>math.MaxFloat64\<close> the sum overflows and \<open>median\<close> returns \<open>+Inf\<close>, above
  the greatest element.
\<close>

theorem median_overflows:
  "heap overflow_world 0 = map Fin [MaxFloat64, MaxFloat64]
   \<and> map_sum id fst (median 0 overflow_world) = Inr PInf
   \<and> Max (set [MaxFloat64, MaxFloat64]) = MaxFloat64 \<and> in_range MaxFloat64"
proof -
  have h: "heap overflow_world 0 = [Fin MaxFloat64, Fin MaxFloat64]"
    by (simp add: overflow_world_def)
  have r: "in_range MaxFloat64"
    by (simp add: in_range_def MaxFloat64_def overflow_at_def)
  have "overflow_at \<le> MaxFloat64 + MaxFloat64"
    by (simp add: MaxFloat64_def overflow_at_def)
  then have sum: "fadd (Fin MaxFloat64) (Fin MaxFloat64) = PInf"
    using r by (simp add: finite_result_def)
  have "sorted_f64 [Fin MaxFloat64, Fin MaxFloat64]" by (simp add: sorted_f64_def)
  then have "Float64s [Fin MaxFloat64, Fin MaxFloat64] = [Fin MaxFloat64, Fin MaxFloat64]"
    by (rule Float64s_sorted_id)
  then have "median_of [Fin MaxFloat64, Fin MaxFloat64]
               = fdiv (fadd (Fin MaxFloat64) (Fin MaxFloat64)) (Fin 2)"
    by (simp add: median_of_def del: fadd.simps)
  then have "median_of [Fin MaxFloat64, Fin MaxFloat64] = PInf"
    unfolding sum by simp
  then have "map_sum id fst (median 0 overflow_world) = Inr PInf"
    using median_run [of overflow_world 0] h by simp
  then show ?thesis using h r by simp
qed

text \<open>
  C3. \<open>median\<close> sorts the slice it is given in place: when it returns, the slice holds the
  same elements in increasing order, every other slice is as before, and the slice is
  unchanged exactly when it was sorted already. On \<open>[2, 1, 3]\<close> the caller's slice is
  \<open>[1, 2, 3]\<close> afterwards.
\<close>

theorem median_sorts_in_place:
  assumes "heap w data \<noteq> []"
  shows "\<exists>r w'. median data w = Inr (r, w')
           \<and> sorted_f64 (heap w' data) \<and> mset (heap w' data) = mset (heap w data)
           \<and> (\<forall>a. a \<noteq> data \<longrightarrow> heap w' a = heap w a)
           \<and> (heap w' data = heap w data) = sorted_f64 (heap w data)"
proof -
  let ?w' = "put data (Float64s (heap w data)) w"
  have "median data w = Inr (median_of (heap w data), ?w')"
    using assms by (rule median_run)
  moreover have "sorted_f64 (heap ?w' data)" by (simp add: sorted_Float64s)
  moreover have "mset (heap ?w' data) = mset (heap w data)" by simp
  moreover have "\<forall>a. a \<noteq> data \<longrightarrow> heap ?w' a = heap w a" by simp
  moreover have "(heap ?w' data = heap w data) = sorted_f64 (heap w data)"
    using sorted_Float64s [of "heap w data"] Float64s_sorted_id [of "heap w data"] by auto
  ultimately show ?thesis by blast
qed

theorem median_sorts_in_place_witness:
  "heap example_world 0 \<noteq> []
   \<and> (\<exists>r w'. median 0 example_world = Inr (r, w')
           \<and> sorted_f64 (heap w' 0) \<and> mset (heap w' 0) = mset (heap example_world 0)
           \<and> (\<forall>a. a \<noteq> 0 \<longrightarrow> heap w' a = heap example_world a)
           \<and> (heap w' 0 = heap example_world 0) = sorted_f64 (heap example_world 0))"
proof -
  have h: "heap example_world 0 \<noteq> []" by (simp add: example_world_def)
  show ?thesis by (intro conjI h median_sorts_in_place [OF h])
qed

text \<open>After \<open>median\<close> on the slice \<open>[2, 1, 3]\<close> the caller's slice is \<open>[1, 2, 3]\<close>.\<close>

theorem median_mutates_argument:
  "map_sum id (\<lambda>r. heap (snd r) 0) (median 0 example_world) = Inr [Fin 1, Fin 2, Fin 3]
   \<and> heap example_world 0 = [Fin 2, Fin 1, Fin 3]"
proof -
  have h: "heap example_world 0 = [Fin 2, Fin 1, Fin 3]" by (simp add: example_world_def)
  have "Float64s [Fin 2, Fin 1, Fin 3] = [Fin 1, Fin 2, Fin 3]"
    by (simp add: Float64s_def)
  then show ?thesis using median_run [of example_world 0] h by simp
qed

lemma standardError_short: "length data < 2 \<Longrightarrow> standardError data = NaN"
proof -
  assume "length data < 2"
  then consider "data = []" | x where "data = [x]"
    by (cases data; cases "tl data") auto
  then show ?thesis
  proof cases
    case 1
    then show ?thesis
      by (simp add: standardError_def mean_def sum_sq_dev_def len_def float64_of_int_def)
  next
    case 2
    then show ?thesis
      by (cases x)
         (simp_all add: standardError_def mean_def sum_sq_dev_def fsub_def len_def
            float64_of_int_def)
  qed
qed

text \<open>
  C4. \<open>standardError\<close> has no error result: on a sequence of fewer than two values it
  returns NaN.
\<close>

theorem standardError_short_is_NaN:
  assumes "length data < 2"
  shows "standardError data = NaN"
  using assms by (rule standardError_short)

theorem standardError_short_is_NaN_witness:
  "length [Fin 7] < 2 \<and> standardError [Fin 7] = NaN"
  using standardError_short_is_NaN [of "[Fin 7]"] by simp

text \<open>On the single value \<open>1\<close> the result is NaN, and no error.\<close>

theorem standardError_single_is_NaN: "standardError [Fin 1] = NaN"
  by (rule standardError_short) simp

section \<open>The population generator\<close>

lemma normals_length: "length (fst (normals R mu sd n g)) = n"
  by (induction n arbitrary: g) (simp_all add: split_beta Let_def)

lemma generate_loop:
  assumes "length (heap w population) = nat sz" "0 \<le> i" "i \<le> sz"
  shows "\<exists>w'. for_loop i sz (generate_body R population mu sd) w = Inr w'
           \<and> heap w' population =
               take (nat i) (heap w population) @ fst (normals R mu sd (nat (sz - i)) (rng w))
           \<and> rng w' = snd (normals R mu sd (nat (sz - i)) (rng w))
           \<and> nxt w' = nxt w \<and> maxlen w' = maxlen w
           \<and> (\<forall>a. a \<noteq> population \<longrightarrow> heap w' a = heap w a)"
  using assms
proof (induction "nat (sz - i)" arbitrary: i w)
  case 0
  then have "i = sz" by simp
  with 0 show ?case by (simp add: for_loop_done)
next
  case (Suc d)
  then have lt: "i < sz" and d: "d = nat (sz - (i + 1))" and nat: "nat (sz - i) = Suc d" by linarith+
  obtain x g where xg: "NormFloat64 R (rng w) = (x, g)" by (cases "NormFloat64 R (rng w)")
  define v where "v = fadd (fmul (Fin x) sd) mu"
  define w0 where "w0 = w\<lparr>rng := g\<rparr>"
  have w0: "heap w0 = heap w" "nxt w0 = nxt w" "rng w0 = g" "maxlen w0 = maxlen w"
    by (simp_all add: w0_def)
  define w1 where "w1 = put population ((heap w0 population)[nat i := v]) w0"
  have il: "nat i < length (heap w population)" using Suc.prems lt by simp
  have body: "generate_body R population mu sd i w = Inr w1"
    unfolding generate_body_def xg prod.case Let_def w1_def v_def w0_def [symmetric]
    using Suc.prems(2) il by (intro assign_in_range) (simp_all add: w0)
  have w1: "heap w1 population = (heap w population)[nat i := v]" "rng w1 = g" "nxt w1 = nxt w"
    "maxlen w1 = maxlen w" "\<And>a. a \<noteq> population \<Longrightarrow> heap w1 a = heap w a"
    by (simp_all add: w1_def w0)
  obtain w' where w': "for_loop (i + 1) sz (generate_body R population mu sd) w1 = Inr w'"
    "heap w' population =
       take (nat (i + 1)) (heap w1 population) @ fst (normals R mu sd (nat (sz - (i + 1))) (rng w1))"
    "rng w' = snd (normals R mu sd (nat (sz - (i + 1))) (rng w1))"
    "nxt w' = nxt w1" "maxlen w' = maxlen w1" "\<forall>a. a \<noteq> population \<longrightarrow> heap w' a = heap w1 a"
    using Suc.hyps(1) [OF d, of w1] Suc.prems lt by (auto simp add: w1)
  have si: "nat (i + 1) = Suc (nat i)" using Suc.prems by simp
  have "for_loop i sz (generate_body R population mu sd) w = Inr w'"
    using lt by (simp add: for_loop_step body w')
  moreover have "heap w' population =
       take (nat i) (heap w population) @ fst (normals R mu sd (nat (sz - i)) (rng w))"
    using il by (simp add: w' w1 si nat d [symmetric] xg split_beta take_update_snoc v_def)
  moreover have "rng w' = snd (normals R mu sd (nat (sz - i)) (rng w))"
    by (simp add: w' w1 nat d [symmetric] xg split_beta)
  moreover have "nxt w' = nxt w" "maxlen w' = maxlen w"
    "\<forall>a. a \<noteq> population \<longrightarrow> heap w' a = heap w a"
    by (simp_all add: w' w1)
  ultimately show ?case by blast
qed

lemma generatePopulation_char:
  assumes "0 \<le> sz" "sz \<le> int (maxlen w)"
  shows "\<exists>w'. generatePopulation R sz mu sd w = Inr (nxt w, w')
           \<and> heap w' (nxt w) = fst (normals R mu sd (nat sz) (Seed R 42 (rng w)))
           \<and> rng w' = snd (normals R mu sd (nat sz) (Seed R 42 (rng w)))
           \<and> nxt w' = Suc (nxt w) \<and> maxlen w' = maxlen w
           \<and> (\<forall>a. a \<noteq> nxt w \<longrightarrow> heap w' a = heap w a)"
proof -
  define w1 where "w1 = fresh sz w"
  define w2 where "w2 = w1\<lparr>rng := Seed R 42 (rng w1)\<rparr>"
  have w2: "heap w2 = (heap w)(nxt w := replicate (nat sz) (Fin 0))" "nxt w2 = Suc (nxt w)"
    "rng w2 = Seed R 42 (rng w)" "maxlen w2 = maxlen w"
    by (simp_all add: w2_def w1_def)
  have mk: "make sz w = Inr (nxt w, w1)" using assms by (simp add: make_fresh w1_def)
  obtain w' where w': "for_loop 0 sz (generate_body R (nxt w) mu sd) w2 = Inr w'"
    "heap w' (nxt w) = take (nat 0) (heap w2 (nxt w)) @ fst (normals R mu sd (nat (sz - 0)) (rng w2))"
    "rng w' = snd (normals R mu sd (nat (sz - 0)) (rng w2))"
    "nxt w' = nxt w2" "maxlen w' = maxlen w2" "\<forall>a. a \<noteq> nxt w \<longrightarrow> heap w' a = heap w2 a"
    using generate_loop [of w2 "nxt w" sz 0 R mu sd] assms by (auto simp add: w2)
  have "generatePopulation R sz mu sd w = Inr (nxt w, w')"
    by (simp add: generatePopulation_def mk Let_def w' flip: w2_def)
  then show ?thesis using w' by (simp add: w2)
qed

lemma generatePopulation_reseeded:
  assumes "0 \<le> sz" "sz \<le> int (maxlen w1)" "sz \<le> int (maxlen w2)"
    and "Seed R 42 (rng w1) = Seed R 42 (rng w2)"
  shows "\<exists>p1 w1' p2 w2'.
           generatePopulation R sz mu stddev w1 = Inr (p1, w1')
         \<and> generatePopulation R sz mu stddev w2 = Inr (p2, w2')
         \<and> heap w1' p1 = heap w2' p2 \<and> len (heap w1' p1) = sz"
proof -
  obtain w1' where a: "generatePopulation R sz mu stddev w1 = Inr (nxt w1, w1')"
    "heap w1' (nxt w1) = fst (normals R mu stddev (nat sz) (Seed R 42 (rng w1)))"
    using generatePopulation_char [OF assms(1,2)] by blast
  obtain w2' where b: "generatePopulation R sz mu stddev w2 = Inr (nxt w2, w2')"
    "heap w2' (nxt w2) = fst (normals R mu stddev (nat sz) (Seed R 42 (rng w2)))"
    using generatePopulation_char [OF assms(1,3)] by blast
  have "len (heap w1' (nxt w1)) = sz"
    using assms(1) by (simp add: a(2) len_def normals_length)
  then show ?thesis using a b assms(4) by auto
qed

text \<open>
  C5. \<open>generatePopulation\<close> calls \<open>rand.Seed(42)\<close> and draws from the random source that the
  call leaves. With a library whose \<open>rand.Seed\<close> leaves the source as it was, as from Go 1.24,
  two calls in a row with the same arguments return two different populations: here
  \<open>[100, 110]\<close> and then \<open>[120, 130]\<close>, both of the length asked for.
\<close>

theorem generatePopulation_not_reseeded:
  "map_sum id (\<lambda>r. heap (snd r) (fst r))
     (generatePopulation unseeded_source 2 (Fin 100) (Fin 10) example_world)
     = Inr [Fin 100, Fin 110]
   \<and> map_sum id (\<lambda>r. heap (snd r) (fst r))
       (bindR (generatePopulation unseeded_source 2 (Fin 100) (Fin 10) example_world)
          (\<lambda>r. generatePopulation unseeded_source 2 (Fin 100) (Fin 10) (snd r)))
     = Inr [Fin 120, Fin 130]"
proof -
  have lim: "(0::int) \<le> 2" "2 \<le> int (maxlen example_world)" and g0: "rng example_world = 0"
    by (simp_all add: example_world_def)
  have n0: "normals unseeded_source (Fin 100) (Fin 10) 2 0 = ([Fin 100, Fin 110], 2)"
    by (simp add: eval_nat_numeral unseeded_source_def finite_result_small)
  have n2: "normals unseeded_source (Fin 100) (Fin 10) 2 2 = ([Fin 120, Fin 130], 4)"
    by (simp add: eval_nat_numeral unseeded_source_def finite_result_small)
  have sd: "Seed unseeded_source 42 g = g" for g
    by (simp add: unseeded_source_def)
  obtain w1 where w1:
    "generatePopulation unseeded_source 2 (Fin 100) (Fin 10) example_world
       = Inr (nxt example_world, w1)"
    "heap w1 (nxt example_world) = [Fin 100, Fin 110]" "rng w1 = 2"
    "maxlen w1 = maxlen example_world"
    using generatePopulation_char [OF lim, of unseeded_source "Fin 100" "Fin 10"]
    by (auto simp add: sd g0 n0)
  have lim1: "2 \<le> int (maxlen w1)" using lim(2) by (simp add: w1(4))
  obtain w2 where w2:
    "generatePopulation unseeded_source 2 (Fin 100) (Fin 10) w1 = Inr (nxt w1, w2)"
    "heap w2 (nxt w1) = [Fin 120, Fin 130]"
    using generatePopulation_char [OF lim(1) lim1, of unseeded_source "Fin 100" "Fin 10"]
    by (auto simp add: sd w1(3) n2)
  show ?thesis by (simp add: w1 w2)
qed

text \<open>
  C9. \<open>generatePopulation\<close> checks no parameter: at \<open>size < 0\<close> it panics in \<open>make\<close>, and at
  \<open>size = 0\<close> it returns the empty population.
\<close>

theorem generatePopulation_size:
  "(sz < 0 \<longrightarrow> generatePopulation R sz mu stddev w = Inl MakesliceLenOutOfRange)
   \<and> (sz = 0 \<longrightarrow> (\<exists>w'. generatePopulation R sz mu stddev w = Inr (nxt w, w')
                     \<and> heap w' (nxt w) = []))"
proof (intro conjI impI)
  assume "sz < 0"
  then show "generatePopulation R sz mu stddev w = Inl MakesliceLenOutOfRange"
    by (simp add: generatePopulation_def make_negative)
next
  assume "sz = 0"
  then show "\<exists>w'. generatePopulation R sz mu stddev w = Inr (nxt w, w') \<and> heap w' (nxt w) = []"
    using generatePopulation_char [of sz w R mu stddev] by auto
qed

theorem generatePopulation_size_witness:
  "(-1::int) < 0
   \<and> generatePopulation counter_source (-1) (Fin 100) (Fin 10) example_world
        = Inl MakesliceLenOutOfRange
   \<and> (\<exists>w'. generatePopulation counter_source 0 (Fin 100) (Fin 10) example_world
               = Inr (nxt example_world, w')
          \<and> heap w' (nxt example_world) = [])"
  using generatePopulation_size [of "-1" counter_source "Fin 100" "Fin 10" example_world]
    generatePopulation_size [of 0 counter_source "Fin 100" "Fin 10" example_world]
  by simp

text \<open>At \<open>size = 0\<close> the call returns, with the empty population.\<close>

theorem generatePopulation_zero_returns:
  "map_sum id (\<lambda>r. heap (snd r) (fst r))
     (generatePopulation counter_source 0 (Fin 100) (Fin 10) example_world) = Inr []"
  using generatePopulation_char [of 0 example_world counter_source "Fin 100" "Fin 10"]
  by auto

section \<open>The population is only read\<close>

lemma bindR_Inr_iff: "bindR m f = Inr y \<longleftrightarrow> (\<exists>x. m = Inr x \<and> f x = Inr y)"
  by (cases m) simp_all

lemma for_loop_invariant:
  assumes step: "\<And>j t t'. P t \<Longrightarrow> body j t = Inr t' \<Longrightarrow> P t'"
    and "P s" and "for_loop i n body s = Inr t"
  shows "P t"
  using assms(2,3)
proof (induction "nat (n - i)" arbitrary: i s)
  case 0
  then have "n \<le> i" by simp
  with 0 show ?case by (simp add: for_loop_done)
next
  case (Suc d)
  then have lt: "i < n" and d: "d = nat (n - (i + 1))" by linarith+
  obtain s' where s': "body i s = Inr s'" "for_loop (i + 1) n body s' = Inr t"
    using Suc.prems(2) lt by (auto simp add: for_loop_step bindR_Inr_iff)
  have "P s'" using Suc.prems(1) s'(1) by (rule step)
  then show ?case using s'(2) by (rule Suc.hyps(1) [OF d])
qed

lemma kept_refl: "kept p w w"
  by (simp add: kept_def)

lemma kept_trans: "kept p w w1 \<Longrightarrow> kept p w1 w2 \<Longrightarrow> kept p w w2"
  by (simp add: kept_def)

lemma make_kept:
  assumes "make n w = Inr (a, w')" "p < nxt w"
  shows "kept p w w'" "a = nxt w" "nxt w' = Suc (nxt w)"
  using assms by (auto simp add: make_def kept_def split: if_splits)

lemma assign_kept:
  assumes "assign a i v w = Inr w'" "p \<noteq> a"
  shows "kept p w w'" "nxt w' = nxt w"
  using assms by (auto simp add: assign_def kept_def split: if_splits)

lemma median_kept:
  assumes "median a w = Inr (r, w')" "p \<noteq> a"
  shows "kept p w w'" "nxt w' = nxt w"
  using assms
  by (auto simp add: median_def Let_def kept_def bindR_Inr_iff split: if_splits)

lemma draw_into_kept:
  assumes "draw_into R s q j w = Inr w'" "p \<noteq> s"
  shows "kept p w w' \<and> nxt w' = nxt w"
proof -
  obtain k w1 v where "Intn R (len (heap w q)) w = Inr (k, w1)" "assign s j v w1 = Inr w'"
    using assms(1) by (auto simp add: draw_into_def bindR_Inr_iff)
  moreover from this(1) have "heap w1 = heap w" "nxt w1 = nxt w" "maxlen w1 = maxlen w"
    by (auto simp add: Intn_def split: if_splits prod.splits)
  ultimately show ?thesis using assign_kept [of s j v w1 w' p] assms(2)
    by (simp add: kept_def)
qed

lemma fill_kept:
  assumes "for_loop i m (draw_into R s q) w = Inr w'" "p \<noteq> s"
  shows "kept p w w' \<and> nxt w' = nxt w"
proof (rule for_loop_invariant [where P = "\<lambda>t. kept p w t \<and> nxt t = nxt w", OF _ _ assms(1)])
  show "kept p w w \<and> nxt w = nxt w" by (simp add: kept_refl)
next
  fix j t t'
  assume "kept p w t \<and> nxt t = nxt w" "draw_into R s q j t = Inr t'"
  then show "kept p w t' \<and> nxt t' = nxt w"
    using draw_into_kept [of R s q j t t' p] assms(2) by (auto intro: kept_trans)
qed

lemma bootstrap_body_kept:
  assumes run: "bootstrap_body R q m means medians i w = Inr w'"
    and p: "p < nxt w" "p \<noteq> means" "p \<noteq> medians"
  shows "kept p w w'"
proof -
  obtain s wa wb wc r wd where st:
    "make m w = Inr (s, wa)" "for_loop 0 m (draw_into R s q) wa = Inr wb"
    "assign means i (mean (heap wb s)) wb = Inr wc" "median s wc = Inr (r, wd)"
    "assign medians i r wd = Inr w'"
    using run by (auto simp add: bootstrap_body_def bindR_Inr_iff)
  have s: "p \<noteq> s" using make_kept(2) [OF st(1) p(1)] p(1) by simp
  have "kept p w wa" using st(1) p(1) by (rule make_kept)
  moreover have "kept p wa wb" using fill_kept [OF st(2) s] by simp
  moreover have "kept p wb wc" using st(3) p(2) by (rule assign_kept)
  moreover have "kept p wc wd" using st(4) s by (rule median_kept)
  moreover have "kept p wd w'" using st(5) p(3) by (rule assign_kept)
  ultimately show ?thesis by (blast intro: kept_trans)
qed

lemma clt_body_kept:
  assumes run: "clt_body R q m means i w = Inr w'"
    and p: "p < nxt w" "p \<noteq> means"
  shows "kept p w w'"
proof -
  obtain s wa wb where st:
    "make m w = Inr (s, wa)" "for_loop 0 m (draw_into R s q) wa = Inr wb"
    "assign means i (mean (heap wb s)) wb = Inr w'"
    using run by (auto simp add: clt_body_def bindR_Inr_iff)
  have s: "p \<noteq> s" using make_kept(2) [OF st(1) p(1)] p(1) by simp
  have "kept p w wa" using st(1) p(1) by (rule make_kept)
  moreover have "kept p wa wb" using fill_kept [OF st(2) s] by simp
  moreover have "kept p wb w'" using st(3) p(2) by (rule assign_kept)
  ultimately show ?thesis by (blast intro: kept_trans)
qed

lemma bootstrap_kept:
  assumes run: "bootstrap R population k m w = Inr (r, w')" and p: "population < nxt w"
  shows "kept population w w'"
proof -
  obtain means w1 medians w2 w3 where st:
    "make k w = Inr (means, w1)" "make k w1 = Inr (medians, w2)"
    "for_loop 0 k (bootstrap_body R population m means medians) w2 = Inr w3" "w' = w3"
    using run by (auto simp add: bootstrap_def bindR_Inr_iff Let_def)
  have k1: "kept population w w1" and a1: "means = nxt w" and n1: "nxt w1 = Suc (nxt w)"
    using make_kept [OF st(1) p] by simp_all
  have p1: "population < nxt w1" using p n1 by simp
  have k2: "kept population w1 w2" and a2: "medians = nxt w1"
    using make_kept [OF st(2) p1] by simp_all
  have ne: "population \<noteq> means" "population \<noteq> medians" using p a1 a2 n1 by simp_all
  have p2: "population < nxt w2" using k2 p1 by (simp add: kept_def)
  have "kept population w2 w3 \<and> population < nxt w3"
  proof (rule for_loop_invariant
      [where P = "\<lambda>t. kept population w2 t \<and> population < nxt t", OF _ _ st(3)])
    show "kept population w2 w2 \<and> population < nxt w2" using p2 by (simp add: kept_refl)
  next
    fix j t t'
    assume t: "kept population w2 t \<and> population < nxt t"
      and b: "bootstrap_body R population m means medians j t = Inr t'"
    have "kept population t t'"
      using bootstrap_body_kept [OF b] t ne by simp
    then show "kept population w2 t' \<and> population < nxt t'"
      using t by (auto simp add: kept_def)
  qed
  then show ?thesis using k1 k2 st(4) by (blast intro: kept_trans)
qed

lemma clt_kept:
  assumes run: "centralLimitTheorem R population m k w = Inr (r, w')" and p: "population < nxt w"
  shows "kept population w w'"
proof -
  obtain means w1 w2 where st:
    "make k w = Inr (means, w1)"
    "for_loop 0 k (clt_body R population m means) w1 = Inr w2" "w' = w2"
    using run by (auto simp add: centralLimitTheorem_def bindR_Inr_iff)
  have k1: "kept population w w1" and a1: "means = nxt w" and n1: "nxt w1 = Suc (nxt w)"
    using make_kept [OF st(1) p] by simp_all
  have p1: "population < nxt w1" using p n1 by simp
  have ne: "population \<noteq> means" using p a1 by simp
  have "kept population w1 w2 \<and> population < nxt w2"
  proof (rule for_loop_invariant
      [where P = "\<lambda>t. kept population w1 t \<and> population < nxt t", OF _ _ st(2)])
    show "kept population w1 w1 \<and> population < nxt w1" using p1 by (simp add: kept_refl)
  next
    fix j t t'
    assume t: "kept population w1 t \<and> population < nxt t"
      and b: "clt_body R population m means j t = Inr t'"
    have "kept population t t'"
      using clt_body_kept [OF b] t ne by simp
    then show "kept population w1 t' \<and> population < nxt t'"
      using t by (auto simp add: kept_def)
  qed
  then show ?thesis using k1 st(3) by (blast intro: kept_trans)
qed

lemma run_calls_kept:
  assumes "run_calls R population cs w = Inr w'" "population < nxt w"
  shows "kept population w w'"
  using assms
proof (induction cs arbitrary: w)
  case Nil
  then show ?case by (simp add: kept_refl)
next
  case (Cons c cs)
  show ?case
  proof (cases c)
    case (CentralLimitTheorem m k)
    then obtain r w1 where st: "centralLimitTheorem R population m k w = Inr (r, w1)"
      "run_calls R population cs w1 = Inr w'"
      using Cons.prems(1) by (auto simp add: bindR_Inr_iff)
    have k1: "kept population w w1" using st(1) Cons.prems(2) by (rule clt_kept)
    then have "population < nxt w1" using Cons.prems(2) by (simp add: kept_def)
    then have "kept population w1 w'" using st(2) by (intro Cons.IH)
    with k1 show ?thesis by (rule kept_trans)
  next
    case (Bootstrap k m)
    then obtain r w1 where st: "bootstrap R population k m w = Inr (r, w1)"
      "run_calls R population cs w1 = Inr w'"
      using Cons.prems(1) by (auto simp add: bindR_Inr_iff)
    have k1: "kept population w w1" using st(1) Cons.prems(2) by (rule bootstrap_kept)
    then have "population < nxt w1" using Cons.prems(2) by (simp add: kept_def)
    then have "kept population w1 w'" using st(2) by (intro Cons.IH)
    with k1 show ?thesis by (rule kept_trans)
  qed
qed

text \<open>
  C6. After any sequence of calls of \<open>bootstrap\<close> and \<open>centralLimitTheorem\<close> on a
  population, when they have all returned, the population holds the same elements in the
  same order as before.
\<close>

theorem resampling_keeps_population:
  assumes "population < nxt w" and "run_calls R population calls w = Inr w'"
  shows "heap w' population = heap w population"
  using run_calls_kept [OF assms(2,1)] by (simp add: kept_def)

lemma run_calls_example:
  "\<exists>w'. run_calls counter_source 0 [CentralLimitTheorem 1 2, Bootstrap 2 1] example_world = Inr w'"
proof -
  have live: "0 < nxt example_world" and ne: "heap example_world 0 \<noteq> []"
    and lim: "2 \<le> int (maxlen example_world)" "1 \<le> int (maxlen example_world)"
    by (simp_all add: example_world_def)
  have k0: "(0::int) \<le> 2" and m0: "(0::int) \<le> 1" and m1: "(1::int) \<le> 1" by simp_all
  obtain ss g where "draw_samples counter_source (heap example_world 0) (nat 1) (nat 2)
      (rng example_world) = Inr (ss, g)"
    using draw_samples_ok [OF rand_ok_counter_source ne] by blast
  then obtain r1 w1 where c: "centralLimitTheorem counter_source 0 1 2 example_world = Inr (r1, w1)"
    using clt_char [OF live k0 lim(1) m0 lim(2), of counter_source] by auto
  have k: "kept 0 example_world w1" using c live by (rule clt_kept)
  then have live1: "0 < nxt w1" and ne1: "heap w1 0 \<noteq> []"
    and lim1: "2 \<le> int (maxlen w1)" "1 \<le> int (maxlen w1)"
    using live ne lim by (simp_all add: kept_def)
  obtain ss' g' where "draw_samples counter_source (heap w1 0) (nat 1) (nat 2) (rng w1) = Inr (ss', g')"
    using draw_samples_ok [OF rand_ok_counter_source ne1] by blast
  then obtain r2 w2 where b: "bootstrap counter_source 0 2 1 w1 = Inr (r2, w2)"
    using bootstrap_char [OF live1 k0 lim1(1) m1 lim1(2), of counter_source] by auto
  show ?thesis using c b by simp
qed

theorem resampling_keeps_population_witness:
  "0 < nxt example_world
   \<and> (\<exists>w'. run_calls counter_source 0 [CentralLimitTheorem 1 2, Bootstrap 2 1] example_world = Inr w'
          \<and> heap w' 0 = [Fin 2, Fin 1, Fin 3])"
proof -
  have live: "0 < nxt example_world" by (simp add: example_world_def)
  obtain w' where r: "run_calls counter_source 0 [CentralLimitTheorem 1 2, Bootstrap 2 1]
      example_world = Inr w'"
    using run_calls_example by blast
  have "heap w' 0 = heap example_world 0"
    using live r by (rule resampling_keeps_population)
  then have "heap w' 0 = [Fin 2, Fin 1, Fin 3]" by (simp add: example_world_def)
  with live r show ?thesis by blast
qed

end
